theory Spec2Isabelle
  imports Complex_Main "HOL-Library.Multiset"
begin

section \<open>Python and numpy values\<close>

text \<open>
  The exceptions that the modelled code can raise. A raising call is a value \<open>Inl e\<close>,
  a returning call is \<open>Inr v\<close>.
\<close>

datatype py_error =
  IndexError | ValueError | AssertionError | KeyError | RuntimeError
  | FileNotFoundError | AttributeError | LinAlgError

text \<open>The lines the readers print on the standard error stream.\<close>

datatype diag =
  NoSystemRaw string
  | ResetBatchSize string int
  | IgnoreEmpty string

definition ebind :: "py_error + 'a \<Rightarrow> ('a \<Rightarrow> py_error + 'b) \<Rightarrow> py_error + 'b" where
  "ebind m f = (case m of Inl e \<Rightarrow> Inl e | Inr x \<Rightarrow> f x)"

fun emap :: "('a \<Rightarrow> py_error + 'b) \<Rightarrow> 'a list \<Rightarrow> py_error + 'b list" where
  "emap f [] = Inr []"
| "emap f (x # xs) = ebind (f x) (\<lambda>y. ebind (emap f xs) (\<lambda>ys. Inr (y # ys)))"

text \<open>
  An array of rank at least one is kept as the list of its entries along axis 0 (the
  frames), each entry flattened in C order, together with the remaining dimensions:
  the numpy shape is \<open>length (frames a) # fshape a\<close>. The entries are IEEE doubles in
  the program; they are idealised as real numbers here, so nothing below speaks about
  rounding, \<open>inf\<close> or \<open>nan\<close>.
\<close>

record ndarray =
  fshape :: "nat list"
  frames :: "real list list"

definition blocks :: "nat \<Rightarrow> nat \<Rightarrow> 'a list \<Rightarrow> 'a list list" where
  "blocks n k xs = map (\<lambda>i. take k (drop (i * k) xs)) [0..<n]"

text \<open>\<open>flat.reshape([n] + dims)\<close>: the sizes have to agree.\<close>

definition np_reshape :: "nat \<Rightarrow> nat list \<Rightarrow> real list \<Rightarrow> py_error + ndarray" where
  "np_reshape n dims flat =
     (if length flat = n * prod_list dims
      then Inr \<lparr>fshape = dims, frames = blocks n (prod_list dims) flat\<rparr>
      else Inl ValueError)"

text \<open>\<open>flat.reshape([-1, 1])\<close> always succeeds.\<close>

definition np_reshape_col :: "real list \<Rightarrow> ndarray" where
  "np_reshape_col flat = \<lparr>fshape = [1], frames = map (\<lambda>x. [x]) flat\<rparr>"

text \<open>\<open>conv.reshape(n)\<close> on the boolean convergence array.\<close>

definition np_reshape_bool :: "nat \<Rightarrow> bool list \<Rightarrow> py_error + bool list" where
  "np_reshape_bool n conv = (if length conv = n then Inr conv else Inl ValueError)"

text \<open>\<open>a[conv]\<close> with a boolean mask along axis 0.\<close>

definition np_mask :: "ndarray \<Rightarrow> bool list \<Rightarrow> py_error + ndarray" where
  "np_mask a conv =
     (if length conv = length (frames a)
      then Inr (a\<lparr>frames := map fst (filter snd (zip (frames a) conv))\<rparr>)
      else Inl IndexError)"

text \<open>
  \<open>a[ind]\<close> with an integer index array along axis 0: negative indices count from the
  end, anything outside \<open>[-n, n)\<close> raises.
\<close>

definition np_take :: "ndarray \<Rightarrow> int list \<Rightarrow> py_error + ndarray" where
  "np_take a ind =
     (let n = int (length (frames a)) in
      if list_all (\<lambda>i. - n \<le> i \<and> i < n) ind
      then Inr (a\<lparr>frames := map (\<lambda>i. frames a ! nat (if i < 0 then i + n else i)) ind\<rparr>)
      else Inl IndexError)"

definition np_arange :: "int \<Rightarrow> int \<Rightarrow> int list" where
  "np_arange a b = [a..b - 1]"

text \<open>
  \<open>np.concatenate(ds, axis=-1)\<close> for arrays of shape \<open>[n, a, p\<^sub>i]\<close>: atom by atom the
  channel rows of the sources are joined.
\<close>

definition np_concatenate_last :: "ndarray list \<Rightarrow> py_error + ndarray" where
  "np_concatenate_last ds =
     (case ds of
        [] \<Rightarrow> Inl ValueError
      | d # _ \<Rightarrow>
          if list_all (\<lambda>x. length (fshape x) = 2 \<and> hd (fshape x) = hd (fshape d)
                            \<and> length (frames x) = length (frames d)) ds
          then Inr \<lparr>fshape = [hd (fshape d), sum_list (map (\<lambda>x. last (fshape x)) ds)],
                    frames = map (\<lambda>f. concat (map (\<lambda>a. concat (map (\<lambda>x.
                                 take (last (fshape x)) (drop (a * last (fshape x)) (frames x ! f))) ds))
                               [0..<hd (fshape d)]))
                             [0..<length (frames d)]\<rparr>
          else Inl ValueError)"

text \<open>
  \<open>np.random.choice(n, n, replace=False)\<close> returns a permutation of \<open>0, \<dots>, n - 1\<close>.
  The generator is outside the program: the functions below take the array it returned
  as an argument, and the theorems hold for every permutation it can return. That the
  permutation is uniformly distributed is the contract of the numpy call and is not
  expressed in this embedding.
\<close>

definition is_permutation :: "int \<Rightarrow> int list \<Rightarrow> bool" where
  "is_permutation n ind = (sort ind = [0..n - 1])"

section \<open>The files of one system\<close>

text \<open>
  What the arrays stored under one data path hold: \<open>system.raw\<close> (absent or
  unreadable is \<open>None\<close>), and for every array name of the configuration the flat
  contents of the file. The descriptor files (one for every name in \<open>d_name\<close>) also
  carry the shape they were saved with, which \<open>load_meta\<close> reads when there is no
  \<open>system.raw\<close>. The entries of \<open>system.raw\<close> are counts.
\<close>

record raw_system =
  rs_meta :: "nat list option"
  rs_e :: "real list"
  rs_d :: "(nat list \<times> real list) list"
  rs_conv :: "bool list"
  rs_f :: "real list"
  rs_gv :: "real list"
  rs_o :: "real list"
  rs_op :: "real list"

section \<open>Reader\<close>

text \<open>
  The three reader classes of the source have the same configuration and data
  attributes; they are the common part of the three records.
\<close>

record reader_common =
  data_path :: string
  batch_size :: int
  c_filter :: bool
  natm :: nat
  nproj :: nat
  ndesc :: nat
  nframes :: int
  data_ec :: ndarray
  data_dm :: ndarray

record reader = reader_common +
  index_count_all :: int

text \<open>\<open>Reader.load_meta\<close>: \<open>d_name\<close> is a list of names here.\<close>

definition Reader_load_meta :: "string \<Rightarrow> raw_system \<Rightarrow> py_error + (nat \<times> nat) \<times> diag list" where
  "Reader_load_meta path rs =
     (case rs_meta rs of
        Some (m # ms) \<Rightarrow> Inr ((m, last (m # ms)), [])
      | _ \<Rightarrow>
          (case rs_d rs of
             [] \<Rightarrow> Inl IndexError
           | (sys_shape, _) # _ \<Rightarrow>
               if length sys_shape = 3
               then Inr ((sys_shape ! 1, sys_shape ! 2), [NoSystemRaw path])
               else Inl AssertionError))"

text \<open>The mask \<open>conv\<close> that \<open>prepare\<close> applies, in all three classes.\<close>

definition load_conv :: "bool \<Rightarrow> nat \<Rightarrow> raw_system \<Rightarrow> py_error + bool list" where
  "load_conv cf raw_nframes rs =
     (if cf then np_reshape_bool raw_nframes (rs_conv rs)
      else Inr (replicate raw_nframes True))"

text \<open>\<open>Reader.prepare\<close>, with the attributes set by \<open>__init__\<close> and \<open>load_meta\<close> as arguments.\<close>

definition Reader_prepare ::
  "string \<Rightarrow> raw_system \<Rightarrow> int \<Rightarrow> bool \<Rightarrow> nat \<Rightarrow> nat \<Rightarrow> py_error + reader \<times> diag list" where
  "Reader_prepare path rs bs cf na np =
     (let e = np_reshape_col (rs_e rs);
          raw_nframes = length (frames e)
      in ebind (emap (\<lambda>d. np_reshape raw_nframes [na, np] (snd d)) (rs_d rs)) (\<lambda>ds.
         ebind (np_concatenate_last ds) (\<lambda>dm.
         ebind (load_conv cf raw_nframes rs) (\<lambda>conv.
         ebind (np_mask e conv) (\<lambda>ec.
         ebind (np_mask dm conv) (\<lambda>dmc.
           let r = \<lparr>data_path = path, batch_size = bs, c_filter = cf,
                    natm = na, nproj = np, ndesc = last (fshape dmc),
                    nframes = int (length (filter id conv)),
                    data_ec = ec, data_dm = dmc, index_count_all = 0\<rparr>
           in if nframes r < batch_size r
              then Inr (r\<lparr>batch_size := nframes r\<rparr>, [ResetBatchSize path (nframes r)])
              else Inr (r, [])))))))"

definition Reader_init :: "string \<Rightarrow> raw_system \<Rightarrow> int \<Rightarrow> bool \<Rightarrow> py_error + reader \<times> diag list" where
  "Reader_init path rs bs cf =
     ebind (Reader_load_meta path rs) (\<lambda>((na, np), l1).
     ebind (Reader_prepare path rs bs cf na np) (\<lambda>(r, l2). Inr (r, l1 @ l2)))"

definition Reader_sample_all :: "reader \<Rightarrow> ndarray \<times> ndarray" where
  "Reader_sample_all r = (data_ec r, data_dm r)"

text \<open>
  \<open>Reader.sample_train\<close>. The first argument is what \<open>np.random.choice\<close> returns if
  this call reaches it. The result is the batch and the reader after the call.
\<close>

definition Reader_sample_train :: "int list \<Rightarrow> reader \<Rightarrow> py_error + (ndarray \<times> ndarray) \<times> reader" where
  "Reader_sample_train perm r =
     (if nframes r = batch_size r \<and> batch_size r = 1 then Inr (Reader_sample_all r, r)
      else
        let r1 = r\<lparr>index_count_all := index_count_all r + batch_size r\<rparr> in
        ebind (if index_count_all r1 > nframes r1
               then ebind (np_take (data_ec r1) perm) (\<lambda>ec.
                    ebind (np_take (data_dm r1) perm) (\<lambda>dm.
                      Inr (r1\<lparr>index_count_all := batch_size r1, data_ec := ec, data_dm := dm\<rparr>)))
               else Inr r1) (\<lambda>r2.
        let ind = np_arange (index_count_all r2 - batch_size r2) (index_count_all r2) in
        ebind (np_take (data_ec r2) ind) (\<lambda>be.
        ebind (np_take (data_dm r2) ind) (\<lambda>bd.
          Inr ((be, bd), r2)))))"

text \<open>
  What \<open>Reader.prepare\<close> establishes and \<open>Reader.sample_train\<close> keeps: the stored arrays
  hold \<open>nframes\<close> frames, the batch size is at most \<open>nframes\<close>, and the cursor is at most
  \<open>nframes\<close> (and not negative, for a batch size that is not negative).
\<close>

definition reader_inv :: "reader \<Rightarrow> bool" where
  "reader_inv r =
     (nframes r = int (length (frames (data_ec r))) \<and>
      nframes r = int (length (frames (data_dm r))) \<and>
      batch_size r \<le> nframes r \<and>
      index_count_all r \<le> nframes r \<and>
      (batch_size r < 0 \<or> 0 \<le> index_count_all r))"

section \<open>ForceReader and OrbitalReader\<close>

text \<open>
  \<open>flat.reshape(n, -1, d\<^sub>1, \<dots>)\<close>: the free dimension is inferred from the size, which
  numpy refuses when the known dimensions multiply to zero or do not divide the size.
\<close>

definition np_reshape_infer :: "nat \<Rightarrow> nat list \<Rightarrow> real list \<Rightarrow> py_error + ndarray" where
  "np_reshape_infer n dims flat =
     (let m = n * prod_list dims in
      if m = 0 \<or> length flat mod m \<noteq> 0 then Inl ValueError
      else let k = length flat div m in
           Inr \<lparr>fshape = k # dims, frames = blocks n (k * prod_list dims) flat\<rparr>)"

text \<open>Python's \<open>q[:b]\<close> and \<open>q[b:]\<close>; a negative bound counts from the end.\<close>

definition py_slice_to :: "'a list \<Rightarrow> int \<Rightarrow> 'a list" where
  "py_slice_to q b = (if 0 \<le> b then take (nat b) q else take (nat (int (length q) + b)) q)"

definition py_slice_from :: "'a list \<Rightarrow> int \<Rightarrow> 'a list" where
  "py_slice_from q b = (if 0 \<le> b then drop (nat b) q else drop (nat (int (length q) + b)) q)"

record force_reader = reader_common +
  t_ec :: ndarray
  t_eig :: ndarray
  t_fc :: ndarray
  t_gvx :: ndarray
  idx_queue :: "int list"

record orbital_reader = force_reader +
  t_oc :: ndarray
  t_op :: ndarray

text \<open>
  \<open>ForceReader.load_meta\<close> and \<open>OrbitalReader.load_meta\<close> are the same function. Here
  \<open>d_name\<close> is one name: with any other number of descriptor files the file named by
  \<open>d_name\<close> is not found.
\<close>

definition load_d :: "raw_system \<Rightarrow> py_error + nat list \<times> real list" where
  "load_d rs = (case rs_d rs of [d] \<Rightarrow> Inr d | _ \<Rightarrow> Inl FileNotFoundError)"

definition ForceReader_load_meta :: "string \<Rightarrow> raw_system \<Rightarrow> py_error + (nat \<times> nat) \<times> diag list" where
  "ForceReader_load_meta path rs =
     (case rs_meta rs of
        Some (m # ms) \<Rightarrow> Inr ((m, last (m # ms)), [])
      | _ \<Rightarrow>
          ebind (load_d rs) (\<lambda>(sys_shape, _).
            if length sys_shape = 3
            then Inr ((sys_shape ! 1, sys_shape ! 2), [NoSystemRaw path])
            else Inl AssertionError))"

text \<open>\<open>ForceReader.prepare\<close> followed by the last line of \<open>ForceReader.__init__\<close> (the empty queue).\<close>

definition ForceReader_prepare ::
  "string \<Rightarrow> raw_system \<Rightarrow> int \<Rightarrow> bool \<Rightarrow> nat \<Rightarrow> nat \<Rightarrow> py_error + force_reader \<times> diag list" where
  "ForceReader_prepare path rs bs cf na np =
     (let e = np_reshape_col (rs_e rs);
          raw_nframes = length (frames e)
      in ebind (load_d rs) (\<lambda>d.
         ebind (np_reshape raw_nframes [na, np] (snd d)) (\<lambda>dm.
         ebind (load_conv cf raw_nframes rs) (\<lambda>conv.
         ebind (np_mask e conv) (\<lambda>ec.
         ebind (np_mask dm conv) (\<lambda>dmc.
           let nf = int (length (filter id conv));
               bs' = (if nf < bs then nf else bs);
               l = (if nf < bs then [ResetBatchSize path nf] else [])
           in ebind (np_reshape raw_nframes [na, 3] (rs_f rs)) (\<lambda>f.
              ebind (np_mask f conv) (\<lambda>fc.
              ebind (np_reshape raw_nframes [na, 3, na, np] (rs_gv rs)) (\<lambda>gv.
              ebind (np_mask gv conv) (\<lambda>gvc.
                Inr (\<lparr>data_path = path, batch_size = bs', c_filter = cf,
                       natm = na, nproj = np, ndesc = np, nframes = nf,
                       data_ec = ec, data_dm = dmc,
                       t_ec = ec, t_eig = dmc, t_fc = fc, t_gvx = gvc, idx_queue = []\<rparr>, l)))))))))))"

definition ForceReader_init ::
  "string \<Rightarrow> raw_system \<Rightarrow> int \<Rightarrow> bool \<Rightarrow> py_error + force_reader \<times> diag list" where
  "ForceReader_init path rs bs cf =
     ebind (ForceReader_load_meta path rs) (\<lambda>((na, np), l1).
     ebind (ForceReader_prepare path rs bs cf na np) (\<lambda>(r, l2). Inr (r, l1 @ l2)))"

definition ForceReader_sample_all :: "force_reader \<Rightarrow> ndarray \<times> ndarray \<times> ndarray \<times> ndarray" where
  "ForceReader_sample_all r = (t_ec r, t_eig r, t_fc r, t_gvx r)"

definition ForceReader_sample_train ::
  "int list \<Rightarrow> force_reader \<Rightarrow> py_error + (ndarray \<times> ndarray \<times> ndarray \<times> ndarray) \<times> force_reader" where
  "ForceReader_sample_train perm r =
     (if batch_size r = nframes r \<and> nframes r = 1 then Inr (ForceReader_sample_all r, r)
      else
        let r1 = (if int (length (idx_queue r)) < batch_size r then r\<lparr>idx_queue := perm\<rparr> else r);
            sample_idx = py_slice_to (idx_queue r1) (batch_size r1);
            r2 = r1\<lparr>idx_queue := py_slice_from (idx_queue r1) (batch_size r1)\<rparr>
        in ebind (np_take (t_ec r2) sample_idx) (\<lambda>b_ec.
           ebind (np_take (t_eig r2) sample_idx) (\<lambda>b_eig.
           ebind (np_take (t_fc r2) sample_idx) (\<lambda>b_fc.
           ebind (np_take (t_gvx r2) sample_idx) (\<lambda>b_gvx.
             Inr ((b_ec, b_eig, b_fc, b_gvx), r2))))))"

text \<open>\<open>OrbitalReader.prepare\<close> followed by the last line of \<open>OrbitalReader.__init__\<close>.\<close>

definition OrbitalReader_prepare ::
  "string \<Rightarrow> raw_system \<Rightarrow> int \<Rightarrow> bool \<Rightarrow> nat \<Rightarrow> nat \<Rightarrow> py_error + orbital_reader \<times> diag list" where
  "OrbitalReader_prepare path rs bs cf na np =
     (let e = np_reshape_col (rs_e rs);
          raw_nframes = length (frames e)
      in ebind (load_d rs) (\<lambda>d.
         ebind (np_reshape raw_nframes [na, np] (snd d)) (\<lambda>dm.
         ebind (load_conv cf raw_nframes rs) (\<lambda>conv.
         ebind (np_mask e conv) (\<lambda>ec.
         ebind (np_mask dm conv) (\<lambda>dmc.
           let nf = int (length (filter id conv));
               bs' = (if nf < bs then nf else bs);
               l = (if nf < bs then [ResetBatchSize path nf] else [])
           in ebind (np_reshape raw_nframes [na, 3] (rs_f rs)) (\<lambda>f.
              ebind (np_mask f conv) (\<lambda>fc.
              ebind (np_reshape raw_nframes [na, 3, na, np] (rs_gv rs)) (\<lambda>gv.
              ebind (np_mask gv conv) (\<lambda>gvc.
              ebind (np_reshape_infer raw_nframes [] (rs_o rs)) (\<lambda>oc.
              ebind (np_mask oc conv) (\<lambda>occ.
              ebind (np_reshape_infer raw_nframes [na, np] (rs_op rs)) (\<lambda>op.
              ebind (np_mask op conv) (\<lambda>opc.
                Inr (\<lparr>data_path = path, batch_size = bs', c_filter = cf,
                       natm = na, nproj = np, ndesc = np, nframes = nf,
                       data_ec = ec, data_dm = dmc,
                       t_ec = ec, t_eig = dmc, t_fc = fc, t_gvx = gvc, idx_queue = [],
                       t_oc = occ, t_op = opc\<rparr>, l)))))))))))))))"

definition OrbitalReader_init ::
  "string \<Rightarrow> raw_system \<Rightarrow> int \<Rightarrow> bool \<Rightarrow> py_error + orbital_reader \<times> diag list" where
  "OrbitalReader_init path rs bs cf =
     ebind (ForceReader_load_meta path rs) (\<lambda>((na, np), l1).
     ebind (OrbitalReader_prepare path rs bs cf na np) (\<lambda>(r, l2). Inr (r, l1 @ l2)))"

definition OrbitalReader_sample_all ::
  "orbital_reader \<Rightarrow> ndarray \<times> ndarray \<times> ndarray \<times> ndarray \<times> ndarray \<times> ndarray" where
  "OrbitalReader_sample_all r = (t_ec r, t_eig r, t_fc r, t_gvx r, t_oc r, t_op r)"

definition OrbitalReader_sample_train ::
  "int list \<Rightarrow> orbital_reader \<Rightarrow>
   py_error + (ndarray \<times> ndarray \<times> ndarray \<times> ndarray \<times> ndarray \<times> ndarray) \<times> orbital_reader" where
  "OrbitalReader_sample_train perm r =
     (if batch_size r = nframes r \<and> nframes r = 1 then Inr (OrbitalReader_sample_all r, r)
      else
        let r1 = (if int (length (idx_queue r)) < batch_size r then r\<lparr>idx_queue := perm\<rparr> else r);
            sample_idx = py_slice_to (idx_queue r1) (batch_size r1);
            r2 = r1\<lparr>idx_queue := py_slice_from (idx_queue r1) (batch_size r1)\<rparr>
        in ebind (np_take (t_ec r2) sample_idx) (\<lambda>b_ec.
           ebind (np_take (t_eig r2) sample_idx) (\<lambda>b_eig.
           ebind (np_take (t_fc r2) sample_idx) (\<lambda>b_fc.
           ebind (np_take (t_gvx r2) sample_idx) (\<lambda>b_gvx.
           ebind (np_take (t_oc r2) sample_idx) (\<lambda>b_oc.
           ebind (np_take (t_op r2) sample_idx) (\<lambda>b_op.
             Inr ((b_ec, b_eig, b_fc, b_gvx, b_oc, b_op), r2))))))))"

text \<open>
  What the two \<open>prepare\<close> functions establish and the two \<open>sample_train\<close> functions keep:
  every stored tensor holds \<open>nframes\<close> frames, the batch size is at most \<open>nframes\<close>, the
  queue holds valid frame indices, and it is empty when the batch size is negative.
\<close>

definition force_inv :: "'a force_reader_scheme \<Rightarrow> bool" where
  "force_inv r =
     (nframes r = int (length (frames (t_ec r))) \<and>
      nframes r = int (length (frames (t_eig r))) \<and>
      nframes r = int (length (frames (t_fc r))) \<and>
      nframes r = int (length (frames (t_gvx r))) \<and>
      batch_size r \<le> nframes r \<and>
      list_all (\<lambda>i. 0 \<le> i \<and> i < nframes r) (idx_queue r) \<and>
      (0 \<le> batch_size r \<or> idx_queue r = []))"

definition orbital_inv :: "orbital_reader \<Rightarrow> bool" where
  "orbital_inv r =
     (force_inv r \<and>
      nframes r = int (length (frames (t_oc r))) \<and>
      nframes r = int (length (frames (t_op r))))"

text \<open>
  The number of frames that the convergence mask of the configuration retains: the
  count of true entries of \<open>conv\<close> when the filter is on, every frame of the label array
  when it is off.
\<close>

definition retained_frames :: "bool \<Rightarrow> raw_system \<Rightarrow> int" where
  "retained_frames cf rs =
     (if cf then int (length (filter id (rs_conv rs))) else int (length (rs_e rs)))"

text \<open>A reader with three frames whose cursor stands at 2, for the examples.\<close>

definition reader3 :: reader where
  "reader3 = \<lparr>data_path = ''sys'', batch_size = 2, c_filter = False, natm = 1, nproj = 1, ndesc = 1,
     nframes = 3, data_ec = \<lparr>fshape = [1], frames = [[1], [2], [3]]\<rparr>,
     data_dm = \<lparr>fshape = [1, 1], frames = [[10], [20], [30]]\<rparr>, index_count_all = 2\<rparr>"

text \<open>The files of a system with three frames, one atom and one channel.\<close>

definition raw3 :: raw_system where
  "raw3 = \<lparr>rs_meta = Some [1, 1], rs_e = [1, 2, 3], rs_d = [([3, 1, 1], [10, 20, 30])],
           rs_conv = [True, True, True],
           rs_f = [0, 0, 0, 0, 0, 0, 0, 0, 0], rs_gv = [0, 0, 0, 0, 0, 0, 0, 0, 0],
           rs_o = [4, 5, 6], rs_op = [7, 8, 9]\<rparr>"

text \<open>
  The queue from which a call of \<open>sample_train\<close> takes its indices: the stored queue,
  or the permutation the generator returns when the stored queue holds fewer than
  \<open>batch_size\<close> indices (what was left of the stored queue is then gone).
\<close>

definition refilled :: "int list \<Rightarrow> 'a force_reader_scheme \<Rightarrow> int list" where
  "refilled perm r = (if int (length (idx_queue r)) < batch_size r then perm else idx_queue r)"

text \<open>
  A force reader and an orbital reader with four frames and batch size 3, after one
  call: one index of the first permutation is left in the queue.
\<close>

definition freader4 :: force_reader where
  "freader4 = \<lparr>data_path = ''sys'', batch_size = 3, c_filter = False, natm = 1, nproj = 1, ndesc = 1,
     nframes = 4,
     data_ec = \<lparr>fshape = [1], frames = [[0], [1], [2], [3]]\<rparr>,
     data_dm = \<lparr>fshape = [1, 1], frames = [[10], [11], [12], [13]]\<rparr>,
     t_ec = \<lparr>fshape = [1], frames = [[0], [1], [2], [3]]\<rparr>,
     t_eig = \<lparr>fshape = [1, 1], frames = [[10], [11], [12], [13]]\<rparr>,
     t_fc = \<lparr>fshape = [1, 3], frames = [[0, 0, 0], [1, 1, 1], [2, 2, 2], [3, 3, 3]]\<rparr>,
     t_gvx = \<lparr>fshape = [1, 3, 1, 1], frames = [[0, 0, 0], [4, 4, 4], [5, 5, 5], [6, 6, 6]]\<rparr>,
     idx_queue = [2]\<rparr>"

definition oreader4 :: orbital_reader where
  "oreader4 = \<lparr>data_path = ''sys'', batch_size = 3, c_filter = False, natm = 1, nproj = 1, ndesc = 1,
     nframes = 4,
     data_ec = \<lparr>fshape = [1], frames = [[0], [1], [2], [3]]\<rparr>,
     data_dm = \<lparr>fshape = [1, 1], frames = [[10], [11], [12], [13]]\<rparr>,
     t_ec = \<lparr>fshape = [1], frames = [[0], [1], [2], [3]]\<rparr>,
     t_eig = \<lparr>fshape = [1, 1], frames = [[10], [11], [12], [13]]\<rparr>,
     t_fc = \<lparr>fshape = [1, 3], frames = [[0, 0, 0], [1, 1, 1], [2, 2, 2], [3, 3, 3]]\<rparr>,
     t_gvx = \<lparr>fshape = [1, 3, 1, 1], frames = [[0, 0, 0], [4, 4, 4], [5, 5, 5], [6, 6, 6]]\<rparr>,
     idx_queue = [2],
     t_oc = \<lparr>fshape = [1], frames = [[20], [21], [22], [23]]\<rparr>,
     t_op = \<lparr>fshape = [1, 1, 1], frames = [[30], [31], [32], [33]]\<rparr>\<rparr>"

section \<open>GroupReader\<close>

text \<open>
  \<open>Reader_class\<close> is one of the three classes; a reader of a group reader is an object
  of that class.
\<close>

datatype reader_class = ReaderC | ForceReaderC | OrbitalReaderC

datatype any_reader = PlainR reader | ForceR force_reader | OrbitalR orbital_reader

definition Reader_class :: "bool \<Rightarrow> bool \<Rightarrow> reader_class" where
  "Reader_class with_orbital with_force =
     (if with_orbital then OrbitalReaderC else if with_force then ForceReaderC else ReaderC)"

text \<open>\<open>Reader_class(ipath, batch_size, **kwargs)\<close> on the files found under \<open>ipath\<close>.\<close>

definition new_reader ::
  "reader_class \<Rightarrow> string \<Rightarrow> raw_system \<Rightarrow> int \<Rightarrow> bool \<Rightarrow> py_error + any_reader \<times> diag list" where
  "new_reader cls path rs bs cf =
     (case cls of
        ReaderC \<Rightarrow> ebind (Reader_init path rs bs cf) (\<lambda>(r, l). Inr (PlainR r, l))
      | ForceReaderC \<Rightarrow> ebind (ForceReader_init path rs bs cf) (\<lambda>(r, l). Inr (ForceR r, l))
      | OrbitalReaderC \<Rightarrow> ebind (OrbitalReader_init path rs bs cf) (\<lambda>(r, l). Inr (OrbitalR r, l)))"

text \<open>The attributes and methods that \<open>GroupReader\<close> uses of a reader of any class.\<close>

definition get_nframes :: "any_reader \<Rightarrow> int" where
  "get_nframes a = (case a of PlainR r \<Rightarrow> nframes r | ForceR r \<Rightarrow> nframes r | OrbitalR r \<Rightarrow> nframes r)"

definition r_batch_size :: "any_reader \<Rightarrow> int" where
  "r_batch_size a =
     (case a of PlainR r \<Rightarrow> batch_size r | ForceR r \<Rightarrow> batch_size r | OrbitalR r \<Rightarrow> batch_size r)"

definition r_natm :: "any_reader \<Rightarrow> nat" where
  "r_natm a = (case a of PlainR r \<Rightarrow> natm r | ForceR r \<Rightarrow> natm r | OrbitalR r \<Rightarrow> natm r)"

definition r_ndesc :: "any_reader \<Rightarrow> nat" where
  "r_ndesc a = (case a of PlainR r \<Rightarrow> ndesc r | ForceR r \<Rightarrow> ndesc r | OrbitalR r \<Rightarrow> ndesc r)"

definition r_data_ec :: "any_reader \<Rightarrow> ndarray" where
  "r_data_ec a = (case a of PlainR r \<Rightarrow> data_ec r | ForceR r \<Rightarrow> data_ec r | OrbitalR r \<Rightarrow> data_ec r)"

definition r_data_dm :: "any_reader \<Rightarrow> ndarray" where
  "r_data_dm a = (case a of PlainR r \<Rightarrow> data_dm r | ForceR r \<Rightarrow> data_dm r | OrbitalR r \<Rightarrow> data_dm r)"

text \<open>\<open>s.sample_train()\<close>: the tuple of tensors as a list, and the reader after the call.\<close>

definition r_sample_train :: "int list \<Rightarrow> any_reader \<Rightarrow> py_error + ndarray list \<times> any_reader" where
  "r_sample_train perm a =
     (case a of
        PlainR r \<Rightarrow>
          ebind (Reader_sample_train perm r) (\<lambda>((b_ec, b_dm), r'). Inr ([b_ec, b_dm], PlainR r'))
      | ForceR r \<Rightarrow>
          ebind (ForceReader_sample_train perm r) (\<lambda>((b_ec, b_eig, b_fc, b_gvx), r').
            Inr ([b_ec, b_eig, b_fc, b_gvx], ForceR r'))
      | OrbitalR r \<Rightarrow>
          ebind (OrbitalReader_sample_train perm r) (\<lambda>((b_ec, b_eig, b_fc, b_gvx, b_oc, b_op), r').
            Inr ([b_ec, b_eig, b_fc, b_gvx, b_oc, b_op], OrbitalR r')))"

text \<open>
  The quotients of \<open>__init__\<close> are numpy floats: a division by zero is no exception
  there but gives an infinity or nan, which the sums and quotients after it carry on. The
  finite values are real numbers here; the sign of a zero is not kept.
\<close>

datatype npfloat = Fin real | PosInf | NegInf | NaN

definition np_true_divide :: "real \<Rightarrow> real \<Rightarrow> npfloat" where
  "np_true_divide a b =
     (if b \<noteq> 0 then Fin (a / b) else if 0 < a then PosInf else if a < 0 then NegInf else NaN)"

fun np_add :: "npfloat \<Rightarrow> npfloat \<Rightarrow> npfloat" where
  "np_add (Fin a) (Fin b) = Fin (a + b)"
| "np_add NaN _ = NaN"
| "np_add _ NaN = NaN"
| "np_add PosInf NegInf = NaN"
| "np_add NegInf PosInf = NaN"
| "np_add PosInf _ = PosInf"
| "np_add _ PosInf = PosInf"
| "np_add NegInf _ = NegInf"
| "np_add _ NegInf = NegInf"

fun np_divide :: "npfloat \<Rightarrow> npfloat \<Rightarrow> npfloat" where
  "np_divide (Fin a) (Fin b) = np_true_divide a b"
| "np_divide (Fin a) PosInf = Fin 0"
| "np_divide (Fin a) NegInf = Fin 0"
| "np_divide PosInf (Fin b) = (if b < 0 then NegInf else PosInf)"
| "np_divide NegInf (Fin b) = (if b < 0 then PosInf else NegInf)"
| "np_divide PosInf PosInf = NaN"
| "np_divide PosInf NegInf = NaN"
| "np_divide NegInf PosInf = NaN"
| "np_divide NegInf NegInf = NaN"
| "np_divide NaN _ = NaN"
| "np_divide _ NaN = NaN"

definition np_sum :: "npfloat list \<Rightarrow> npfloat" where
  "np_sum p = foldl np_add (Fin 0) p"

text \<open>
  The dictionaries of \<open>__init__\<close> keep the order in which their keys were inserted, so
  they are association lists. \<open>group_dict\<close> holds the reader objects themselves in the
  source, the same objects as \<open>self.readers\<close>; here it holds their positions in
  \<open>readers\<close>, so that a call of \<open>sample_train\<close> on a member of a group is a change of
  that reader.
\<close>

record group_tables =
  group_dict :: "(nat \<times> nat list) list"
  group_prob :: "(nat \<times> npfloat) list"
  batch_prob_raw :: "(nat \<times> npfloat list) list"
  batch_prob :: "(nat \<times> npfloat list) list"

record group_reader =
  path_list :: "string list"
  g_batch_size :: int
  readers :: "any_reader list"
  g_nframes :: "int list"
  nsystems :: nat
  g_ndesc :: nat
  sys_prob :: "real list"
  group_batch :: int
  groups :: "group_tables option"
  sample_used :: int

text \<open>The argument \<open>path_list\<close> of \<open>__init__\<close> is one path or a list of paths.\<close>

datatype path_arg = PathStr string | PathList "string list"

text \<open>
  The first loop of \<open>__init__\<close>: a reader is made for every path, and kept unless it
  has no frame.
\<close>

fun load_readers ::
  "(string \<Rightarrow> py_error + any_reader \<times> diag list) \<Rightarrow> string list \<Rightarrow>
   py_error + any_reader list \<times> diag list" where
  "load_readers mk [] = Inr ([], [])"
| "load_readers mk (ipath # rest) =
     ebind (mk ipath) (\<lambda>(ireader, l1).
       if get_nframes ireader = 0
       then ebind (load_readers mk rest) (\<lambda>(rds, l2). Inr (rds, l1 @ IgnoreEmpty ipath # l2))
       else ebind (load_readers mk rest) (\<lambda>(rds, l2). Inr (ireader # rds, l1 @ l2)))"

text \<open>The second loop: \<open>group_dict[r.natm].append(r)\<close>, or a new key.\<close>

fun dict_add :: "(nat \<times> nat list) list \<Rightarrow> nat \<Rightarrow> nat \<Rightarrow> (nat \<times> nat list) list" where
  "dict_add [] k v = [(k, [v])]"
| "dict_add ((k', vs) # d) k v =
     (if k' = k then (k', vs @ [v]) # d else (k', vs) # dict_add d k v)"

definition build_group_dict :: "any_reader list \<Rightarrow> (nat \<times> nat list) list" where
  "build_group_dict rds = foldl (\<lambda>d (idx, r). dict_add d (r_natm r) idx) [] (enumerate 0 rds)"

text \<open>
  The three tables made of \<open>group_dict\<close>. The quotients are taken in numpy: a batch size
  of zero gives an infinite weight and then nan for the normalized one. Negative batch
  sizes give negative weights, whose normalized values are positive again.
\<close>

definition make_groups :: "any_reader list \<Rightarrow> int list \<Rightarrow> group_tables" where
  "make_groups rds nfs =
     (let gd = build_group_dict rds;
          gp = map (\<lambda>(n, r_list).
                 (n, np_true_divide (real_of_int (sum_list (map (\<lambda>i. get_nframes (rds ! i)) r_list)))
                       (real_of_int (sum_list nfs)))) gd;
          bpr = map (\<lambda>(n, r_list).
                  (n, map (\<lambda>i. np_true_divide (real_of_int (get_nframes (rds ! i)))
                                 (real_of_int (r_batch_size (rds ! i)))) r_list)) gd;
          bp = map (\<lambda>(n, p). (n, map (\<lambda>x. np_divide x (np_sum p)) p)) bpr
      in \<lparr>group_dict = gd, group_prob = gp, batch_prob_raw = bpr, batch_prob = bp\<rparr>)"

text \<open>
  The files are found through \<open>fs\<close>; a path without files makes the reader class
  raise. \<open>cf\<close> is the keyword argument \<open>conv_filter\<close>.
\<close>

definition open_reader ::
  "(string \<Rightarrow> raw_system option) \<Rightarrow> reader_class \<Rightarrow> int \<Rightarrow> bool \<Rightarrow> string \<Rightarrow>
   py_error + any_reader \<times> diag list" where
  "open_reader fs cls bs cf ipath =
     (case fs ipath of
        None \<Rightarrow> Inl FileNotFoundError
      | Some rs \<Rightarrow> new_reader cls ipath rs bs cf)"

text \<open>\<open>GroupReader.__init__\<close>.\<close>

definition GroupReader_init ::
  "(string \<Rightarrow> raw_system option) \<Rightarrow> path_arg \<Rightarrow> int \<Rightarrow> int \<Rightarrow> bool \<Rightarrow> bool \<Rightarrow> bool \<Rightarrow>
   py_error + group_reader \<times> diag list" where
  "GroupReader_init fs paths bs gb with_force with_orbital cf =
     (let pl = (case paths of PathStr p \<Rightarrow> [p] | PathList ps \<Rightarrow> ps);
          cls = Reader_class with_orbital with_force
      in ebind (load_readers (open_reader fs cls bs cf) pl)
           (\<lambda>(rds, l).
              case rds of
                [] \<Rightarrow> Inl IndexError
              | r0 # _ \<Rightarrow>
                  let nfs = map get_nframes rds in
                  Inr (\<lparr>path_list = pl, g_batch_size = bs, readers = rds, g_nframes = nfs,
                         nsystems = length rds, g_ndesc = r_ndesc r0,
                         sys_prob = map (\<lambda>ii. real_of_int ii / real_of_int (sum_list nfs)) nfs,
                         group_batch = max gb 1,
                         groups = (if max gb 1 > 1 then Some (make_groups rds nfs) else None),
                         sample_used = 0\<rparr>, l)))"

definition get_train_size :: "group_reader \<Rightarrow> int" where
  "get_train_size g = sum_list (g_nframes g)"

text \<open>
  \<open>GroupReader.sample_train\<close>. \<open>idx\<close> is the argument, or what \<open>sample_idx\<close> drew when
  there is none; \<open>perm\<close> is what the generator returns to the reader if it asks.
\<close>

definition GroupReader_sample_train ::
  "nat \<Rightarrow> int list \<Rightarrow> group_reader \<Rightarrow> py_error + ndarray list \<times> group_reader" where
  "GroupReader_sample_train idx perm g =
     (if idx < length (readers g)
      then ebind (r_sample_train perm (readers g ! idx)) (\<lambda>(b, r').
             Inr (b, g\<lparr>readers := (readers g)[idx := r']\<rparr>))
      else Inl IndexError)"

text \<open>
  \<open>[s.sample_train() for s in csys]\<close>: the drawn systems are sampled one after the
  other; a system drawn twice is sampled twice.
\<close>

fun sample_each ::
  "any_reader list \<Rightarrow> (nat \<times> int list) list \<Rightarrow> py_error + ndarray list list \<times> any_reader list" where
  "sample_each rds [] = Inr ([], rds)"
| "sample_each rds ((i, perm) # rest) =
     (if i < length rds
      then ebind (r_sample_train perm (rds ! i)) (\<lambda>(b, r').
           ebind (sample_each (rds[i := r']) rest) (\<lambda>(bs, rds'). Inr (b # bs, rds')))
      else Inl IndexError)"

text \<open>\<open>list(zip(*samples))\<close>: as many entries as the shortest sample has.\<close>

definition py_zip_star :: "'a list list \<Rightarrow> 'a list list" where
  "py_zip_star xss =
     (case xss of
        [] \<Rightarrow> []
      | xs # _ \<Rightarrow> map (\<lambda>k. map (\<lambda>ys. ys ! k) xss) [0..<foldr min (map length xss) (length xs)])"

text \<open>
  \<open>torch.cat(d, dim=0)\<close>: the tensors have to agree in every dimension but the first.
\<close>

definition torch_cat :: "ndarray list \<Rightarrow> py_error + ndarray" where
  "torch_cat d =
     (case d of
        [] \<Rightarrow> Inl RuntimeError
      | a # _ \<Rightarrow> if list_all (\<lambda>x. fshape x = fshape a) d
                 then Inr \<lparr>fshape = fshape a, frames = concat (map frames d)\<rparr>
                 else Inl RuntimeError)"

text \<open>
  \<open>np.random.choice(a, size, p=p)\<close> draws only after it has checked its arguments, and
  raises \<open>ValueError\<close> when \<open>a\<close> is empty, when \<open>p\<close> has another length than \<open>a\<close>,
  when \<open>p\<close> contains nan or a negative entry, and when the sum of \<open>p\<close> is farther from 1
  than the square root of the machine epsilon, \<open>1 / 2 ^ 26\<close> for the floats of
  numpy. \<open>n\<close> is the length of \<open>a\<close>.
\<close>

definition np_negative :: "npfloat \<Rightarrow> bool" where
  "np_negative x = (case x of Fin v \<Rightarrow> v < 0 | NegInf \<Rightarrow> True | _ \<Rightarrow> False)"

definition choice_ok :: "nat \<Rightarrow> npfloat list \<Rightarrow> bool" where
  "choice_ok n p =
     (0 < n \<and> length p = n \<and> list_all (\<lambda>x. x \<noteq> NaN) p \<and> list_all (\<lambda>x. \<not> np_negative x) p \<and>
      (case np_sum p of Fin s \<Rightarrow> \<bar>s - 1\<bar> \<le> 1 / 2 ^ 26 | _ \<Rightarrow> False))"

text \<open>
  \<open>GroupReader.sample_train_group\<close>. Both calls of \<open>np.random.choice\<close> check their
  probabilities first. \<open>cnatm\<close> is the key that the first call drew from \<open>group_prob\<close>;
  \<open>csys\<close> gives, for each of the \<open>group_batch\<close> systems that the second one drew, its
  position in the group and the permutation the generator returns to it if it asks.
  Without the dictionaries (they exist when \<open>group_batch > 1\<close>) the attribute access
  raises.
\<close>

definition sample_train_group ::
  "nat \<Rightarrow> (nat \<times> int list) list \<Rightarrow> group_reader \<Rightarrow> py_error + ndarray list \<times> group_reader" where
  "sample_train_group cnatm csys g =
     (case groups g of
        None \<Rightarrow> Inl AttributeError
      | Some t \<Rightarrow>
          if \<not> choice_ok (length (group_prob t)) (map snd (group_prob t)) then Inl ValueError
          else
            (case map_of (group_dict t) cnatm of
               None \<Rightarrow> Inl KeyError
             | Some cgrp \<Rightarrow>
                 (case map_of (batch_prob t) cnatm of
                    None \<Rightarrow> Inl KeyError
                  | Some p \<Rightarrow>
                      if choice_ok (length cgrp) p \<and> list_all (\<lambda>(k, perm). k < length cgrp) csys
                      then ebind (sample_each (readers g) (map (\<lambda>(k, perm). (cgrp ! k, perm)) csys))
                             (\<lambda>(all_sample, rds').
                                ebind (emap torch_cat (py_zip_star all_sample)) (\<lambda>b.
                                  Inr (b, g\<lparr>readers := rds'\<rparr>)))
                      else Inl ValueError)))"

text \<open>
  What the generator hands to one call of \<open>__next__\<close>: the system index for the draw
  of one system, with the permutation for that system, and the group key and the systems
  for a group draw.
\<close>

record draws =
  dr_idx :: nat
  dr_perm :: "int list"
  dr_natm :: nat
  dr_sys :: "(nat \<times> int list) list"

text \<open>
  \<open>GroupReader.__next__\<close> returns a batch, or raises \<open>StopIteration\<close> after it has set
  the counter to zero, or lets the exception of the sampling pass.
\<close>

datatype next_result =
  Batch "ndarray list" group_reader
  | StopIteration group_reader
  | Raised py_error

definition GroupReader_next :: "draws \<Rightarrow> group_reader \<Rightarrow> next_result" where
  "GroupReader_next d g =
     (if sample_used g > get_train_size g then StopIteration (g\<lparr>sample_used := 0\<rparr>)
      else
        (case (if group_batch g = 1 then GroupReader_sample_train (dr_idx d) (dr_perm d) g
               else sample_train_group (dr_natm d) (dr_sys d) g) of
           Inl e \<Rightarrow> Raised e
         | Inr (sample, g') \<Rightarrow>
             (case sample of
                [] \<Rightarrow> Raised IndexError
              | s0 # _ \<Rightarrow>
                  Batch sample (g'\<lparr>sample_used := sample_used g' + int (length (frames s0))\<rparr>))))"

text \<open>
  The reader that the class makes for a path, and what it prints, when it does not raise.
\<close>

definition opened :: "(string \<Rightarrow> py_error + any_reader \<times> diag list) \<Rightarrow> string \<Rightarrow> any_reader" where
  "opened mk p = fst (projr (mk p))"

definition opened_log :: "(string \<Rightarrow> py_error + any_reader \<times> diag list) \<Rightarrow> string \<Rightarrow> diag list" where
  "opened_log mk p = snd (projr (mk p))"

text \<open>The paths of a list as \<open>__init__\<close> takes them.\<close>

definition paths_of :: "path_arg \<Rightarrow> string list" where
  "paths_of paths = (case paths of PathStr p \<Rightarrow> [p] | PathList ps \<Rightarrow> ps)"

text \<open>
  Two systems for the examples: under \<open>''a''\<close> two frames, none of them converged; under
  \<open>''b''\<close> five frames, all converged.
\<close>

definition raw_a :: raw_system where
  "raw_a = \<lparr>rs_meta = Some [1, 1], rs_e = [1, 2], rs_d = [([2, 1, 1], [5, 6])],
            rs_conv = [False, False], rs_f = [], rs_gv = [], rs_o = [], rs_op = []\<rparr>"

definition raw_b :: raw_system where
  "raw_b = \<lparr>rs_meta = Some [1, 1], rs_e = [1, 2, 3, 4, 5], rs_d = [([5, 1, 1], [6, 7, 8, 9, 10])],
            rs_conv = [True, True, True, True, True], rs_f = [], rs_gv = [], rs_o = [], rs_op = []\<rparr>"

definition fs_ab :: "string \<Rightarrow> raw_system option" where
  "fs_ab p = (if p = ''a'' then Some raw_a else if p = ''b'' then Some raw_b else None)"

text \<open>The group reader that \<open>__init__\<close> makes of the system under \<open>''b''\<close>, and some draws.\<close>

definition greader_b :: group_reader where
  "greader_b =
     \<lparr>path_list = [''b''], g_batch_size = 2,
      readers = [PlainR \<lparr>data_path = ''b'', batch_size = 2, c_filter = True, natm = 1, nproj = 1,
                    ndesc = 1, nframes = 5, data_ec = \<lparr>fshape = [1], frames = [[1], [2], [3], [4], [5]]\<rparr>,
                    data_dm = \<lparr>fshape = [1, 1], frames = [[6], [7], [8], [9], [10]]\<rparr>,
                    index_count_all = 0\<rparr>],
      g_nframes = [5], nsystems = 1, g_ndesc = 1, sys_prob = [1], group_batch = 1,
      groups = None, sample_used = 0\<rparr>"

definition draws0 :: draws where
  "draws0 = \<lparr>dr_idx = 0, dr_perm = [4, 3, 2, 1, 0], dr_natm = 1, dr_sys = []\<rparr>"







definition reader_b :: reader where
  "reader_b = \<lparr>data_path = ''b'', batch_size = 2, c_filter = True, natm = 1, nproj = 1,
                ndesc = 1, nframes = 5, data_ec = \<lparr>fshape = [1], frames = [[1], [2], [3], [4], [5]]\<rparr>,
                data_dm = \<lparr>fshape = [1, 1], frames = [[6], [7], [8], [9], [10]]\<rparr>,
                index_count_all = 0\<rparr>"


definition reader_d :: reader where
  "reader_d = \<lparr>data_path = ''d'', batch_size = 2, c_filter = True, natm = 1, nproj = 2,
                ndesc = 2, nframes = 2, data_ec = \<lparr>fshape = [1], frames = [[21], [22]]\<rparr>,
                data_dm = \<lparr>fshape = [1, 2], frames = [[23, 24], [25, 26]]\<rparr>, index_count_all = 0\<rparr>"


definition greader_bd :: group_reader where
  "greader_bd =
     \<lparr>path_list = [''b'', ''d''], g_batch_size = 2, readers = [PlainR reader_b, PlainR reader_d],
      g_nframes = [5, 2], nsystems = 2, g_ndesc = 1, sys_prob = [5 / 7, 2 / 7], group_batch = 2,
      groups = Some \<lparr>group_dict = [(1, [0, 1])], group_prob = [(1, Fin 1)],
                     batch_prob_raw = [(1, [Fin (5 / 2), Fin 1])],
                     batch_prob = [(1, [Fin (5 / 7), Fin (2 / 7)])]\<rparr>,
      sample_used = 0\<rparr>"


section \<open>Statistics and prefitting\<close>

text \<open>\<open>a.reshape(-1, c)\<close>: numpy cannot infer the free dimension when \<open>c = 0\<close>.\<close>

definition np_reshape_rows :: "ndarray \<Rightarrow> nat \<Rightarrow> py_error + ndarray" where
  "np_reshape_rows a c =
     (let flat = concat (frames a) in
      if c = 0 \<or> length flat mod c \<noteq> 0 then Inl ValueError
      else Inr \<lparr>fshape = [c], frames = blocks (length flat div c) c flat\<rparr>)"

text \<open>\<open>np.concatenate(as)\<close> along axis 0, and of vectors along their only axis.\<close>

definition np_concatenate0 :: "ndarray list \<Rightarrow> py_error + ndarray" where
  "np_concatenate0 as =
     (case as of
        [] \<Rightarrow> Inl ValueError
      | a # _ \<Rightarrow> if list_all (\<lambda>x. fshape x = fshape a) as
                 then Inr \<lparr>fshape = fshape a, frames = concat (map frames as)\<rparr>
                 else Inl ValueError)"

definition np_concatenate1 :: "real list list \<Rightarrow> py_error + real list" where
  "np_concatenate1 vs = (if vs = [] then Inl ValueError else Inr (concat vs))"

text \<open>
  \<open>np.mean\<close> and \<open>np.std\<close> of all entries of an array, over the reals. For an array
  without entries numpy returns \<open>nan\<close> (it does not raise); the value of the model there
  means nothing, and no statement below is about it.
\<close>

definition np_mean :: "real list \<Rightarrow> real" where
  "np_mean xs = sum_list xs / real (length xs)"

definition np_std :: "real list \<Rightarrow> real" where
  "np_std xs = sqrt (np_mean (map (\<lambda>x. \<bar>x - np_mean xs\<bar>\<^sup>2) xs))"

text \<open>\<open>a.mean(0)\<close> and \<open>a.std(0)\<close> of a matrix: one value for every column.\<close>

definition np_mean0 :: "ndarray \<Rightarrow> real list" where
  "np_mean0 a = map (\<lambda>j. np_mean (map (\<lambda>row. row ! j) (frames a))) [0..<last (fshape a)]"

definition np_std0 :: "ndarray \<Rightarrow> real list" where
  "np_std0 a = map (\<lambda>j. np_std (map (\<lambda>row. row ! j) (frames a))) [0..<last (fshape a)]"

text \<open>\<open>np.cumsum\<close> of a list of section widths.\<close>

fun cumsum_from :: "nat \<Rightarrow> nat list \<Rightarrow> nat list" where
  "cumsum_from a [] = []"
| "cumsum_from a (x # xs) = (a + x) # cumsum_from (a + x) xs"

definition np_cumsum :: "nat list \<Rightarrow> nat list" where
  "np_cumsum xs = cumsum_from 0 xs"

text \<open>
  \<open>np.split(row, idxs)\<close> of one row: the pieces \<open>row[0:i\<^sub>1], row[i\<^sub>1:i\<^sub>2], \<dots>, row[i\<^sub>k:]\<close>.
  \<open>np.split(a, idxs, axis=-1)\<close> of a matrix splits every row so; its \<open>k\<close>-th part holds
  the \<open>k\<close>-th piece of every row.
\<close>

fun split_at :: "nat \<Rightarrow> nat list \<Rightarrow> 'a list \<Rightarrow> 'a list list" where
  "split_at lo [] xs = [drop lo xs]"
| "split_at lo (i # idxs) xs = take (i - lo) (drop lo xs) # split_at i idxs xs"

definition np_split_last :: "real list list \<Rightarrow> nat list \<Rightarrow> real list list list" where
  "np_split_last rows idxs =
     map (\<lambda>k. map (\<lambda>row. split_at 0 idxs row ! k) rows) [0..<Suc (length idxs)]"

text \<open>
  \<open>GroupReader.compute_data_stat\<close>. The sections are widths, so they are natural
  numbers.
\<close>

definition compute_data_stat :: "group_reader \<Rightarrow> nat list option \<Rightarrow> py_error + real list \<times> real list" where
  "compute_data_stat g symm_sections =
     ebind (emap (\<lambda>r. np_reshape_rows (r_data_dm r) (r_ndesc r)) (readers g)) (\<lambda>ds.
     ebind (np_concatenate0 ds) (\<lambda>all_dm.
       case symm_sections of
         None \<Rightarrow> Inr (np_mean0 all_dm, np_std0 all_dm)
       | Some secs \<Rightarrow>
           if sum_list secs \<noteq> last (fshape all_dm) then Inl AssertionError
           else
             let dm_shells = np_split_last (frames all_dm) (butlast (np_cumsum secs));
                 mean_shells = map (\<lambda>(d, s). replicate s (np_mean (concat d))) (zip dm_shells secs);
                 std_shells = map (\<lambda>(d, s). replicate s (np_std (concat d))) (zip dm_shells secs)
             in ebind (np_concatenate1 mean_shells) (\<lambda>all_mean.
                ebind (np_concatenate1 std_shells) (\<lambda>all_std.
                  Inr (all_mean, all_std)))))"

text \<open>
  Broadcasting of the last axis of an array of width \<open>c\<close> against a vector of length
  \<open>l\<close>: the widths agree or one of them is 1.
\<close>

definition np_broadcast_dim :: "nat \<Rightarrow> nat \<Rightarrow> py_error + nat" where
  "np_broadcast_dim c l =
     (if c = l then Inr c else if l = 1 then Inr c else if c = 1 then Inr l else Inl ValueError)"

definition bcast :: "nat \<Rightarrow> real list \<Rightarrow> real list" where
  "bcast c v = (if length v = c then v else replicate c (hd v))"

text \<open>
  \<open>((data_dm - shift) / scale).sum(1)\<close> for \<open>data_dm\<close> of shape \<open>[n, natm, c]\<close> (the shape
  that \<open>prepare\<close> gives it) and vectors \<open>shift\<close> and \<open>scale\<close>: a matrix with one row for
  every frame.
\<close>

definition normalized_sum :: "ndarray \<Rightarrow> real list \<Rightarrow> real list \<Rightarrow> py_error + ndarray" where
  "normalized_sum dm shift scale =
     (case fshape dm of
        [na, c] \<Rightarrow>
          ebind (np_broadcast_dim c (length shift)) (\<lambda>c1.
          ebind (np_broadcast_dim c1 (length scale)) (\<lambda>c2.
            Inr \<lparr>fshape = [c2],
                 frames = map (\<lambda>frame.
                     let rows = blocks na c frame;
                         rows1 = map (\<lambda>row. map2 (-) (bcast c1 row) (bcast c1 shift)) rows;
                         rows2 = map (\<lambda>row. map2 (/) (bcast c2 row) (bcast c2 scale)) rows1
                     in map (\<lambda>j. sum_list (map (\<lambda>row. row ! j) rows2)) [0..<c2]) (frames dm)\<rparr>))
      | _ \<Rightarrow> Inl ValueError)"

text \<open>\<open>np.concatenate([a, v.reshape(-1, 1)], -1)\<close>: the vector becomes the last column.\<close>

definition np_append_column :: "ndarray \<Rightarrow> real list \<Rightarrow> py_error + ndarray" where
  "np_append_column a v =
     (if length v = length (frames a)
      then Inr \<lparr>fshape = [Suc (last (fshape a))], frames = map2 (\<lambda>row x. row @ [x]) (frames a) v\<rparr>
      else Inl ValueError)"

text \<open>
  \<open>X.T @ X + ridge_alpha * I\<close> and \<open>X.T @ y\<close> for a matrix \<open>X\<close> with \<open>p\<close> columns and a
  matrix \<open>y\<close> with one column; \<open>I\<close> is the identity with \<open>I[-1, -1] = 0\<close>.
\<close>

definition ridge_I :: "nat \<Rightarrow> real list list" where
  "ridge_I p = map (\<lambda>i. map (\<lambda>j. if i = j \<and> Suc i \<noteq> p then 1 else 0) [0..<p]) [0..<p]"

definition XT_X :: "nat \<Rightarrow> real list list \<Rightarrow> real list list" where
  "XT_X p X = map (\<lambda>i. map (\<lambda>j. sum_list (map (\<lambda>row. row ! i * row ! j) X)) [0..<p]) [0..<p]"

definition XT_y :: "nat \<Rightarrow> real list list \<Rightarrow> real list list \<Rightarrow> py_error + real list" where
  "XT_y p X y =
     (if length X = length y
      then Inr (map (\<lambda>i. sum_list (map2 (\<lambda>row yr. row ! i * hd yr) X y)) [0..<p])
      else Inl ValueError)"

text \<open>
  \<open>GroupReader.compute_prefitting\<close>. \<open>np.linalg.solve\<close> is not code of this program: it is
  the argument \<open>solve\<close>, which takes the matrix and the right-hand side (one column) and
  returns the solution as a vector (what \<open>.reshape(-1)\<close> makes of it) or raises.
  \<open>shift\<close> and \<open>scale\<close> are vectors when they are given.
\<close>

definition compute_prefitting ::
  "(real list list \<Rightarrow> real list \<Rightarrow> py_error + real list) \<Rightarrow> group_reader \<Rightarrow>
   real list option \<Rightarrow> real list option \<Rightarrow> real \<Rightarrow> nat list option \<Rightarrow>
   py_error + real list \<times> real" where
  "compute_prefitting solve g shift scale ridge_alpha symm_sections =
     ebind (case (shift, scale) of
              (Some sh, Some sc) \<Rightarrow> Inr (sh, sc)
            | _ \<Rightarrow> ebind (compute_data_stat g symm_sections) (\<lambda>(all_mean, all_std).
                     Inr (case shift of None \<Rightarrow> all_mean | Some sh \<Rightarrow> sh,
                          case scale of None \<Rightarrow> all_std | Some sc \<Rightarrow> sc))) (\<lambda>(shift, scale).
     ebind (emap (\<lambda>r. normalized_sum (r_data_dm r) shift scale) (readers g)) (\<lambda>sdms.
     ebind (np_concatenate0 sdms) (\<lambda>all_sdm0.
     let all_natm = concat (map (\<lambda>r. replicate (length (frames (r_data_dm r)))
                                       (real (hd (fshape (r_data_dm r))))) (readers g)) in
     ebind (case symm_sections of
              None \<Rightarrow> Inr all_sdm0
            | Some secs \<Rightarrow>
                if sum_list secs \<noteq> last (fshape all_sdm0) then Inl AssertionError
                else Inr \<lparr>fshape = [Suc (length (butlast (np_cumsum secs)))],
                          frames = map (\<lambda>row. map sum_list (split_at 0 (butlast (np_cumsum secs)) row))
                                     (frames all_sdm0)\<rparr>) (\<lambda>all_sdm.
     ebind (np_append_column all_sdm all_natm) (\<lambda>X.
     ebind (np_concatenate0 (map r_data_ec (readers g))) (\<lambda>y.
     let p = last (fshape X);
         A = map2 (map2 (\<lambda>a i. a + ridge_alpha * i)) (XT_X p (frames X)) (ridge_I p)
     in ebind (XT_y p (frames X) (frames y)) (\<lambda>b.
        ebind (solve A b) (\<lambda>coef.
          case coef of
            [] \<Rightarrow> Inl IndexError
          | _ \<Rightarrow>
              let weight = butlast coef; bias = last coef in
              (case symm_sections of
                 None \<Rightarrow> Inr (weight, bias)
               | Some secs \<Rightarrow>
                   ebind (np_concatenate1 (map (\<lambda>(w, s). replicate s w) (zip weight secs)))
                     (\<lambda>weight'. Inr (weight', bias)))))))))))"

text \<open>
  The data arrays of a reader as \<open>prepare\<close> shapes them: every frame of \<open>data_dm\<close> holds
  \<open>natm\<close> rows of \<open>ndesc\<close> channels, every frame of \<open>data_ec\<close> one label, and there are as
  many of the one as of the other.
\<close>

definition data_wf :: "any_reader \<Rightarrow> bool" where
  "data_wf a =
     (fshape (r_data_dm a) = [r_natm a, r_ndesc a] \<and>
      list_all (\<lambda>f. length f = r_natm a * r_ndesc a) (frames (r_data_dm a)) \<and>
      fshape (r_data_ec a) = [1] \<and>
      list_all (\<lambda>f. length f = 1) (frames (r_data_ec a)) \<and>
      length (frames (r_data_ec a)) = length (frames (r_data_dm a)))"

text \<open>
  The descriptor rows of all readers: one row of \<open>ndesc\<close> channels for every atom of
  every frame of every reader.
\<close>

definition pooled_rows :: "any_reader list \<Rightarrow> real list list" where
  "pooled_rows rds =
     concat (map (\<lambda>a. concat (map (blocks (r_natm a) (r_ndesc a)) (frames (r_data_dm a)))) rds)"

text \<open>
  The first channel of section \<open>i\<close>, and all entries of the rows in the \<open>w\<close> channels
  from \<open>off\<close> on.
\<close>

definition sec_offset :: "nat list \<Rightarrow> nat \<Rightarrow> nat" where
  "sec_offset secs i = sum_list (take i secs)"

definition section_pool :: "real list list \<Rightarrow> nat \<Rightarrow> nat \<Rightarrow> real list" where
  "section_pool rows off w = concat (map (\<lambda>row. take w (drop off row)) rows)"

text \<open>
  A system of one atom and five channels with two frames, under \<open>''e''\<close>, and the group
  reader that \<open>__init__\<close> makes of it.
\<close>

definition raw_e :: raw_system where
  "raw_e = \<lparr>rs_meta = Some [1, 5], rs_e = [3, 5], rs_d = [([2, 1, 5], [1, 2, 3, 4, 5, 6, 7, 8, 9, 10])],
            rs_conv = [True, True], rs_f = [], rs_gv = [], rs_o = [], rs_op = []\<rparr>"

definition fs_e :: "string \<Rightarrow> raw_system option" where
  "fs_e p = (if p = ''e'' then Some raw_e else None)"

definition reader_e :: reader where
  "reader_e = \<lparr>data_path = ''e'', batch_size = 2, c_filter = True, natm = 1, nproj = 5,
                ndesc = 5, nframes = 2, data_ec = \<lparr>fshape = [1], frames = [[3], [5]]\<rparr>,
                data_dm = \<lparr>fshape = [1, 5], frames = [[1, 2, 3, 4, 5], [6, 7, 8, 9, 10]]\<rparr>,
                index_count_all = 0\<rparr>"

definition greader_e :: group_reader where
  "greader_e =
     \<lparr>path_list = [''e''], g_batch_size = 2, readers = [PlainR reader_e],
      g_nframes = [2], nsystems = 1, g_ndesc = 5, sys_prob = [1], group_batch = 1,
      groups = None, sample_used = 0\<rparr>"

text \<open>
  The feature of one frame: for every channel, the normalized descriptor summed over
  the atoms of the frame. \<open>f\<close> is the flat frame of \<open>na\<close> atoms and \<open>nd\<close> channels.
\<close>

definition feature :: "nat \<Rightarrow> nat \<Rightarrow> real list \<Rightarrow> real list \<Rightarrow> real list \<Rightarrow> real list" where
  "feature na nd sh sc f =
     map (\<lambda>j. \<Sum>k\<leftarrow>[0..<na]. (f ! (k * nd + j) - sh ! j) / sc ! j) [0..<nd]"

text \<open>The sums of a vector over the channels of each section.\<close>

definition section_sums :: "nat list \<Rightarrow> real list \<Rightarrow> real list" where
  "section_sums secs v =
     map (\<lambda>i. sum_list (take (secs ! i) (drop (sec_offset secs i) v))) [0..<length secs]"

text \<open>
  The design matrix: one row for every frame of every reader, the feature of the frame
  (summed over each section when there are sections) followed by the atom count of the
  frame's system. The labels are in the same order.
\<close>

definition design_matrix ::
  "any_reader list \<Rightarrow> real list \<Rightarrow> real list \<Rightarrow> nat list option \<Rightarrow> real list list" where
  "design_matrix rds sh sc symm =
     concat (map (\<lambda>a. map (\<lambda>f.
        (case symm of
           None \<Rightarrow> feature (r_natm a) (r_ndesc a) sh sc f
         | Some secs \<Rightarrow> section_sums secs (feature (r_natm a) (r_ndesc a) sh sc f))
        @ [real (r_natm a)]) (frames (r_data_dm a))) rds)"

definition labels :: "any_reader list \<Rightarrow> real list" where
  "labels rds = concat (map (\<lambda>a. map hd (frames (r_data_ec a))) rds)"

text \<open>
  The regularized normal equations \<open>(X\<^sup>T X + \<alpha> I') w = X\<^sup>T y\<close> for a matrix with \<open>p\<close>
  columns: \<open>I'\<close> is the identity but for its last diagonal entry, which is 0.
\<close>

definition ridge_lhs :: "nat \<Rightarrow> real list list \<Rightarrow> real \<Rightarrow> real list list" where
  "ridge_lhs p X \<alpha> =
     map (\<lambda>i. map (\<lambda>j. (\<Sum>row\<leftarrow>X. row ! i * row ! j) + (if i = j \<and> Suc i < p then \<alpha> else 0))
                [0..<p]) [0..<p]"

definition ridge_rhs :: "nat \<Rightarrow> real list list \<Rightarrow> real list \<Rightarrow> real list" where
  "ridge_rhs p X ys = map (\<lambda>i. \<Sum>(row, e)\<leftarrow>zip X ys. row ! i * e) [0..<p]"

text \<open>The product of a matrix, given by its rows, and a vector.\<close>

definition mat_vec :: "real list list \<Rightarrow> real list \<Rightarrow> real list" where
  "mat_vec A w = map (\<lambda>row. \<Sum>(a, x)\<leftarrow>zip row w. a * x) A"

(*PROPS*)

section \<open>Properties of the numpy operations\<close>

lemma np_take_ok:
  assumes "list_all (\<lambda>i. 0 \<le> i \<and> i < int (length (frames a))) ind"
  shows "np_take a ind = Inr (a\<lparr>frames := map (\<lambda>i. frames a ! nat i) ind\<rparr>)"
proof -
  have 1: "list_all (\<lambda>i. - int (length (frames a)) \<le> i \<and> i < int (length (frames a))) ind"
    using assms by (auto simp: list_all_iff)
  have 2: "map (\<lambda>i. frames a ! nat (if i < 0 then i + int (length (frames a)) else i)) ind
           = map (\<lambda>i. frames a ! nat i) ind"
    using assms by (auto simp: list_all_iff)
  show ?thesis unfolding np_take_def Let_def using 1 2 by simp
qed

lemma slice_upto:
  assumes "0 \<le> a" "b \<le> int (length xs)"
  shows "map (\<lambda>i. xs ! nat i) [a..b - 1] = take (nat (b - a)) (drop (nat a) xs)"
proof (rule nth_equalityI)
  show "length (map (\<lambda>i. xs ! nat i) [a..b - 1]) = length (take (nat (b - a)) (drop (nat a) xs))"
    using assms by simp
next
  fix i assume "i < length (map (\<lambda>i. xs ! nat i) [a..b - 1])"
  then have i: "int i < b - a" by simp
  then have "[a..b - 1] ! i = a + int i" by simp
  moreover have "nat (a + int i) = nat a + i" using assms by (simp add: nat_add_distrib)
  ultimately show "map (\<lambda>i. xs ! nat i) [a..b - 1] ! i = take (nat (b - a)) (drop (nat a) xs) ! i"
    using i assms by simp
qed

lemma is_permutation_set: "is_permutation n p \<Longrightarrow> set p = {0..n - 1}"
  unfolding is_permutation_def by (metis set_sort set_upto)

lemma is_permutation_length: "is_permutation n p \<Longrightarrow> length p = nat n"
  unfolding is_permutation_def by (metis length_sort length_upto diff_add_cancel diff_zero)

lemma is_permutation_mset: "is_permutation n p \<Longrightarrow> mset p = mset [0..n - 1]"
  unfolding is_permutation_def by (metis mset_sort)

lemma map_nth_upto: "map (\<lambda>i. xs ! nat i) [0..int (length xs) - 1] = xs"
  using slice_upto [of 0 "int (length xs)" xs] by simp

lemma np_take_arange:
  assumes "0 \<le> a" "b \<le> int (length (frames x))"
  shows "np_take x (np_arange a b) = Inr (x\<lparr>frames := take (nat (b - a)) (drop (nat a) (frames x))\<rparr>)"
proof -
  have "list_all (\<lambda>i. 0 \<le> i \<and> i < int (length (frames x))) (np_arange a b)"
    using assms by (auto simp: list_all_iff np_arange_def)
  from np_take_ok [OF this] show ?thesis
    using slice_upto [OF assms] by (simp add: np_arange_def)
qed

lemma np_take_arange_empty:
  assumes "b \<le> a"
  shows "np_take x (np_arange a b) = Inr (x\<lparr>frames := []\<rparr>)"
  using assms by (simp add: np_take_def np_arange_def)

lemma np_take_perm:
  assumes "is_permutation (int (length (frames x))) p"
  shows "np_take x p = Inr (x\<lparr>frames := map (\<lambda>i. frames x ! nat i) p\<rparr>)"
proof -
  have "list_all (\<lambda>i. 0 \<le> i \<and> i < int (length (frames x))) p"
    using is_permutation_set [OF assms] by (auto simp: list_all_iff)
  from np_take_ok [OF this] show ?thesis .
qed

lemma mset_reorder:
  assumes "is_permutation (int (length xs)) p"
  shows "mset (map (\<lambda>i. xs ! nat i) p) = mset xs"
proof -
  have "mset (map (\<lambda>i. xs ! nat i) p) = image_mset (\<lambda>i. xs ! nat i) (mset p)" by simp
  also have "\<dots> = image_mset (\<lambda>i. xs ! nat i) (mset [0..int (length xs) - 1])"
    using is_permutation_mset [OF assms] by simp
  also have "\<dots> = mset (map (\<lambda>i. xs ! nat i) [0..int (length xs) - 1])" by simp
  also have "\<dots> = mset xs" by (simp only: map_nth_upto)
  finally show ?thesis .
qed

section \<open>Properties of Reader\<close>

lemma length_mask:
  "length xs = length conv \<Longrightarrow> length (filter snd (zip xs conv)) = length (filter id conv)"
  by (induction xs conv rule: list_induct2) auto

lemma np_mask_frames:
  "np_mask a conv = Inr b \<Longrightarrow> length (frames b) = length (filter id conv) \<and> fshape b = fshape a"
  by (auto simp: np_mask_def length_mask split: if_splits)



lemma sample_train_shuffle:
  assumes inv: "reader_inv r"
      and nd: "\<not> (nframes r = 1 \<and> batch_size r = 1)"
      and perm: "is_permutation (nframes r) perm"
      and ex: "nframes r < index_count_all r + batch_size r"
  shows "Reader_sample_train perm r =
           Inr ((data_ec r\<lparr>frames := take (nat (batch_size r)) (map (\<lambda>i. frames (data_ec r) ! nat i) perm)\<rparr>,
                 data_dm r\<lparr>frames := take (nat (batch_size r)) (map (\<lambda>i. frames (data_dm r) ! nat i) perm)\<rparr>),
                r\<lparr>index_count_all := batch_size r,
                  data_ec := data_ec r\<lparr>frames := map (\<lambda>i. frames (data_ec r) ! nat i) perm\<rparr>,
                  data_dm := data_dm r\<lparr>frames := map (\<lambda>i. frames (data_dm r) ! nat i) perm\<rparr>\<rparr>)"
proof -
  from inv have le: "nframes r = int (length (frames (data_ec r)))"
    and ld: "nframes r = int (length (frames (data_dm r)))"
    and bs: "batch_size r \<le> nframes r" and c: "index_count_all r \<le> nframes r"
    by (simp_all add: reader_inv_def)
  from ex c have pos: "0 < batch_size r" by linarith
  have pe: "np_take (data_ec r) perm = Inr (data_ec r\<lparr>frames := map (\<lambda>i. frames (data_ec r) ! nat i) perm\<rparr>)"
    using np_take_perm [of "data_ec r" perm] perm le by simp
  have pd: "np_take (data_dm r) perm = Inr (data_dm r\<lparr>frames := map (\<lambda>i. frames (data_dm r) ! nat i) perm\<rparr>)"
    using np_take_perm [of "data_dm r" perm] perm ld by simp
  have len: "length perm = nat (nframes r)" using is_permutation_length [OF perm] .
  have se: "np_take (data_ec r\<lparr>frames := map (\<lambda>i. frames (data_ec r) ! nat i) perm\<rparr>) (np_arange 0 (batch_size r))
        = Inr (data_ec r\<lparr>frames := take (nat (batch_size r)) (map (\<lambda>i. frames (data_ec r) ! nat i) perm)\<rparr>)"
    using np_take_arange [of 0 "batch_size r" "data_ec r\<lparr>frames := map (\<lambda>i. frames (data_ec r) ! nat i) perm\<rparr>"]
      bs len pos by simp
  have sd: "np_take (data_dm r\<lparr>frames := map (\<lambda>i. frames (data_dm r) ! nat i) perm\<rparr>) (np_arange 0 (batch_size r))
        = Inr (data_dm r\<lparr>frames := take (nat (batch_size r)) (map (\<lambda>i. frames (data_dm r) ! nat i) perm)\<rparr>)"
    using np_take_arange [of 0 "batch_size r" "data_dm r\<lparr>frames := map (\<lambda>i. frames (data_dm r) ! nat i) perm\<rparr>"]
      bs len pos by simp
  have nd': "\<not> (nframes r = batch_size r \<and> batch_size r = 1)" using nd by auto
  show ?thesis
    unfolding Reader_sample_train_def using nd' ex pe pd se sd by (auto simp add: ebind_def Let_def)
qed

lemma sample_train_advance:
  assumes inv: "reader_inv r"
      and nd: "\<not> (nframes r = 1 \<and> batch_size r = 1)"
      and ex: "\<not> nframes r < index_count_all r + batch_size r"
  shows "Reader_sample_train perm r =
           Inr ((data_ec r\<lparr>frames := take (nat (batch_size r)) (drop (nat (index_count_all r)) (frames (data_ec r)))\<rparr>,
                 data_dm r\<lparr>frames := take (nat (batch_size r)) (drop (nat (index_count_all r)) (frames (data_dm r)))\<rparr>),
                r\<lparr>index_count_all := index_count_all r + batch_size r\<rparr>)"
proof -
  from inv have le: "nframes r = int (length (frames (data_ec r)))"
    and ld: "nframes r = int (length (frames (data_dm r)))"
    and bs: "batch_size r \<le> nframes r" and c: "index_count_all r \<le> nframes r"
    and sg: "batch_size r < 0 \<or> 0 \<le> index_count_all r"
    by (simp_all add: reader_inv_def)
  have se: "np_take (data_ec r) (np_arange (index_count_all r) (index_count_all r + batch_size r))
        = Inr (data_ec r\<lparr>frames := take (nat (batch_size r)) (drop (nat (index_count_all r)) (frames (data_ec r)))\<rparr>)"
  proof (cases "batch_size r < 0")
    case True
    then show ?thesis
      using np_take_arange_empty [of "index_count_all r + batch_size r" "index_count_all r" "data_ec r"] by simp
  next
    case False
    with sg have "0 \<le> index_count_all r" by simp
    then show ?thesis
      using np_take_arange [of "index_count_all r" "index_count_all r + batch_size r" "data_ec r"] ex le by simp
  qed
  have sd: "np_take (data_dm r) (np_arange (index_count_all r) (index_count_all r + batch_size r))
        = Inr (data_dm r\<lparr>frames := take (nat (batch_size r)) (drop (nat (index_count_all r)) (frames (data_dm r)))\<rparr>)"
  proof (cases "batch_size r < 0")
    case True
    then show ?thesis
      using np_take_arange_empty [of "index_count_all r + batch_size r" "index_count_all r" "data_dm r"] by simp
  next
    case False
    with sg have "0 \<le> index_count_all r" by simp
    then show ?thesis
      using np_take_arange [of "index_count_all r" "index_count_all r + batch_size r" "data_dm r"] ex ld by simp
  qed
  have nd': "\<not> (nframes r = batch_size r \<and> batch_size r = 1)" using nd by auto
  show ?thesis
    unfolding Reader_sample_train_def using nd' ex se sd by (auto simp add: ebind_def Let_def)
qed

text \<open>
  C1 (block-cursor sampling). For a reader as \<open>Reader_prepare\<close> leaves it and \<open>Reader_sample_train\<close>
  keeps it (so \<open>batch_size \<le> nframes\<close>), outside the case \<open>nframes = batch_size = 1\<close>,
  and for every permutation of the \<open>nframes\<close> indices the generator may return: the call
  returns; the cursor is advanced by \<open>batch_size\<close>, and if that exceeds \<open>nframes\<close> it is
  set to \<open>batch_size\<close> and both stored arrays are reordered by the one permutation (the
  same frames, in the order the permutation gives); the batch is the slice
  \<open>[cursor - batch_size, cursor)\<close> of the stored arrays after that; \<open>nframes\<close> and
  \<open>batch_size\<close> do not change.
\<close>

theorem sample_train_block_cursor:
  assumes inv: "reader_inv r"
      and nd: "\<not> (nframes r = 1 \<and> batch_size r = 1)"
      and perm: "is_permutation (nframes r) perm"
  shows "\<exists>be bd r'. Reader_sample_train perm r = Inr ((be, bd), r') \<and>
           index_count_all r' =
             (if nframes r < index_count_all r + batch_size r then batch_size r
              else index_count_all r + batch_size r) \<and>
           frames (data_ec r') =
             (if nframes r < index_count_all r + batch_size r
              then map (\<lambda>i. frames (data_ec r) ! nat i) perm else frames (data_ec r)) \<and>
           frames (data_dm r') =
             (if nframes r < index_count_all r + batch_size r
              then map (\<lambda>i. frames (data_dm r) ! nat i) perm else frames (data_dm r)) \<and>
           mset (frames (data_ec r')) = mset (frames (data_ec r)) \<and>
           mset (frames (data_dm r')) = mset (frames (data_dm r)) \<and>
           frames be = take (nat (batch_size r))
                         (drop (nat (index_count_all r' - batch_size r)) (frames (data_ec r'))) \<and>
           frames bd = take (nat (batch_size r))
                         (drop (nat (index_count_all r' - batch_size r)) (frames (data_dm r'))) \<and>
           length (frames be) = nat (batch_size r) \<and> length (frames bd) = nat (batch_size r) \<and>
           fshape be = fshape (data_ec r) \<and> fshape bd = fshape (data_dm r) \<and>
           nframes r' = nframes r \<and> batch_size r' = batch_size r \<and> reader_inv r'"
proof (cases "nframes r < index_count_all r + batch_size r")
  case True
  from inv have le: "nframes r = int (length (frames (data_ec r)))"
    and ld: "nframes r = int (length (frames (data_dm r)))"
    and bs: "batch_size r \<le> nframes r" and c: "index_count_all r \<le> nframes r"
    by (simp_all add: reader_inv_def)
  from True c have pos: "0 < batch_size r" by linarith
  have len: "length perm = nat (nframes r)" using is_permutation_length [OF perm] .
  have me: "mset (map (\<lambda>i. frames (data_ec r) ! nat i) perm) = mset (frames (data_ec r))"
    using mset_reorder [of "frames (data_ec r)" perm] perm le by simp
  have md: "mset (map (\<lambda>i. frames (data_dm r) ! nat i) perm) = mset (frames (data_dm r))"
    using mset_reorder [of "frames (data_dm r)" perm] perm ld by simp
  show ?thesis
    unfolding sample_train_shuffle [OF inv nd perm True]
    using True me md len bs pos le ld by (simp add: reader_inv_def)
next
  case False
  from inv have le: "nframes r = int (length (frames (data_ec r)))"
    and ld: "nframes r = int (length (frames (data_dm r)))"
    and bs: "batch_size r \<le> nframes r" and c: "index_count_all r \<le> nframes r"
    and sg: "batch_size r < 0 \<or> 0 \<le> index_count_all r"
    by (simp_all add: reader_inv_def)
  show ?thesis
    unfolding sample_train_advance [OF inv nd False]
    using False bs c sg le ld by (auto simp add: reader_inv_def)
qed

theorem sample_train_block_cursor_witness:
  "reader_inv reader3 \<and> \<not> (nframes reader3 = 1 \<and> batch_size reader3 = 1) \<and>
   is_permutation (nframes reader3) [2, 0, 1] \<and>
   (\<exists>be bd r'. Reader_sample_train [2, 0, 1] reader3 = Inr ((be, bd), r') \<and>
      index_count_all r' = 2 \<and>
      frames (data_ec r') = [[3], [1], [2]] \<and> frames (data_dm r') = [[30], [10], [20]] \<and>
      frames be = [[3], [1]] \<and> frames bd = [[30], [10]])"
proof -
  have h1: "reader_inv reader3" by (simp add: reader_inv_def reader3_def)
  have h2: "\<not> (nframes reader3 = 1 \<and> batch_size reader3 = 1)" by (simp add: reader3_def)
  have h3: "is_permutation (nframes reader3) [2, 0, 1]"
    by (simp add: is_permutation_def reader3_def upto.simps)
  from sample_train_block_cursor [OF h1 h2 h3] obtain be bd r' where
    s: "Reader_sample_train [2, 0, 1] reader3 = Inr ((be, bd), r')"
    and c: "index_count_all r' =
             (if nframes reader3 < index_count_all reader3 + batch_size reader3 then batch_size reader3
              else index_count_all reader3 + batch_size reader3)"
    and e: "frames (data_ec r') =
             (if nframes reader3 < index_count_all reader3 + batch_size reader3
              then map (\<lambda>i. frames (data_ec reader3) ! nat i) [2, 0, 1] else frames (data_ec reader3))"
    and d: "frames (data_dm r') =
             (if nframes reader3 < index_count_all reader3 + batch_size reader3
              then map (\<lambda>i. frames (data_dm reader3) ! nat i) [2, 0, 1] else frames (data_dm reader3))"
    and be: "frames be = take (nat (batch_size reader3))
                         (drop (nat (index_count_all r' - batch_size reader3)) (frames (data_ec r')))"
    and bd: "frames bd = take (nat (batch_size reader3))
                         (drop (nat (index_count_all r' - batch_size reader3)) (frames (data_dm r')))"
    by blast
  have c': "index_count_all r' = 2" using c by (simp add: reader3_def)
  have e': "frames (data_ec r') = [[3], [1], [2]]" using e by (simp add: reader3_def)
  have d': "frames (data_dm r') = [[30], [10], [20]]" using d by (simp add: reader3_def)
  have be': "frames be = [[3], [1]]" using be c' e' by (simp add: reader3_def)
  have bd': "frames bd = [[30], [10]]" using bd c' d' by (simp add: reader3_def)
  show ?thesis using h1 h2 h3 s c' e' d' be' bd' by blast
qed

lemma load_conv_retained:
  assumes "load_conv cf (length (rs_e rs)) rs = Inr conv"
  shows "int (length (filter id conv)) = retained_frames cf rs \<and> length conv = length (rs_e rs)"
  using assms
  by (auto simp: load_conv_def np_reshape_bool_def retained_frames_def split: if_splits)

lemma Reader_prepare_facts:
  assumes "Reader_prepare path rs bs cf na np = Inr (r, l)"
  shows "nframes r = retained_frames cf rs \<and>
         batch_size r = min bs (nframes r) \<and>
         l = (if nframes r < bs then [ResetBatchSize path (nframes r)] else [])"
  using assms
  unfolding Reader_prepare_def Let_def ebind_def
  by (auto simp: np_reshape_col_def split: sum.splits if_splits dest!: load_conv_retained)

lemma ForceReader_prepare_facts:
  assumes "ForceReader_prepare path rs bs cf na np = Inr (r, l)"
  shows "nframes r = retained_frames cf rs \<and>
         batch_size r = min bs (nframes r) \<and>
         l = (if nframes r < bs then [ResetBatchSize path (nframes r)] else [])"
  using assms
  unfolding ForceReader_prepare_def Let_def ebind_def
  by (auto simp: np_reshape_col_def split: sum.splits if_splits dest!: load_conv_retained)

lemma OrbitalReader_prepare_facts:
  assumes "OrbitalReader_prepare path rs bs cf na np = Inr (r, l)"
  shows "nframes r = retained_frames cf rs \<and>
         batch_size r = min bs (nframes r) \<and>
         l = (if nframes r < bs then [ResetBatchSize path (nframes r)] else [])"
  using assms
  unfolding OrbitalReader_prepare_def Let_def ebind_def
  by (auto simp: np_reshape_col_def split: sum.splits if_splits dest!: load_conv_retained)



lemma ex1: "\<exists>r. Reader_prepare ''s'' raw3 10 True 1 1 = Inr (r, [ResetBatchSize ''s'' 3]) \<and> nframes r = 3 \<and> batch_size r = 3"
  by (simp add: Reader_prepare_def raw3_def np_reshape_col_def np_reshape_def blocks_def load_conv_def
     np_reshape_bool_def np_mask_def np_concatenate_last_def ebind_def Let_def)

lemma ex2: "\<exists>r. ForceReader_prepare ''s'' raw3 10 True 1 1 = Inr (r, [ResetBatchSize ''s'' 3]) \<and> nframes r = 3 \<and> batch_size r = 3"
  by (simp add: ForceReader_prepare_def raw3_def np_reshape_col_def np_reshape_def blocks_def load_conv_def
     np_reshape_bool_def np_mask_def load_d_def ebind_def Let_def)

lemma ex3: "\<exists>r. OrbitalReader_prepare ''s'' raw3 10 True 1 1 = Inr (r, [ResetBatchSize ''s'' 3]) \<and> nframes r = 3 \<and> batch_size r = 3"
  by (simp add: OrbitalReader_prepare_def raw3_def np_reshape_col_def np_reshape_def blocks_def load_conv_def
     np_reshape_bool_def np_mask_def load_d_def np_reshape_infer_def ebind_def Let_def)

lemma refilled_facts:
  assumes inv: "force_inv r" and perm: "is_permutation (nframes r) perm"
  shows "list_all (\<lambda>i. 0 \<le> i \<and> i < nframes r) (refilled perm r)"
    and "nat (batch_size r) \<le> length (refilled perm r)"
    and "py_slice_to (refilled perm r) (batch_size r) = take (nat (batch_size r)) (refilled perm r)"
    and "py_slice_from (refilled perm r) (batch_size r) = drop (nat (batch_size r)) (refilled perm r)"
proof -
  from inv have bs: "batch_size r \<le> nframes r"
    and q: "list_all (\<lambda>i. 0 \<le> i \<and> i < nframes r) (idx_queue r)"
    and e: "0 \<le> batch_size r \<or> idx_queue r = []"
    unfolding force_inv_def by blast+
  have p: "list_all (\<lambda>i. 0 \<le> i \<and> i < nframes r) perm"
    using is_permutation_set [OF perm] by (auto simp: list_all_iff)
  show "list_all (\<lambda>i. 0 \<le> i \<and> i < nframes r) (refilled perm r)"
    using p q by (simp add: refilled_def)
  show "nat (batch_size r) \<le> length (refilled perm r)"
    using is_permutation_length [OF perm] bs by (auto simp: refilled_def)
  show "py_slice_to (refilled perm r) (batch_size r) = take (nat (batch_size r)) (refilled perm r)"
    using e by (auto simp: py_slice_to_def refilled_def)
  show "py_slice_from (refilled perm r) (batch_size r) = drop (nat (batch_size r)) (refilled perm r)"
    using e by (auto simp: py_slice_from_def refilled_def)
qed

lemma np_take_in_range:
  assumes "list_all (\<lambda>i. 0 \<le> i \<and> i < n) ind" and "n = int (length (frames a))"
  shows "np_take a (take k ind) = Inr (a\<lparr>frames := map (\<lambda>i. frames a ! nat i) (take k ind)\<rparr>)"
proof -
  have "list_all (\<lambda>i. 0 \<le> i \<and> i < int (length (frames a))) (take k ind)"
    using assms by (auto simp: list_all_iff dest: in_set_takeD)
  from np_take_ok [OF this] show ?thesis .
qed

lemma ForceReader_sample_train_eq:
  assumes inv: "force_inv r"
      and nd: "\<not> (nframes r = 1 \<and> batch_size r = 1)"
      and perm: "is_permutation (nframes r) perm"
  shows "ForceReader_sample_train perm r =
           Inr ((t_ec r\<lparr>frames := map (\<lambda>i. frames (t_ec r) ! nat i) (take (nat (batch_size r)) (refilled perm r))\<rparr>,
                 t_eig r\<lparr>frames := map (\<lambda>i. frames (t_eig r) ! nat i) (take (nat (batch_size r)) (refilled perm r))\<rparr>,
                 t_fc r\<lparr>frames := map (\<lambda>i. frames (t_fc r) ! nat i) (take (nat (batch_size r)) (refilled perm r))\<rparr>,
                 t_gvx r\<lparr>frames := map (\<lambda>i. frames (t_gvx r) ! nat i) (take (nat (batch_size r)) (refilled perm r))\<rparr>),
                r\<lparr>idx_queue := drop (nat (batch_size r)) (refilled perm r)\<rparr>)"
proof -
  note f = refilled_facts [OF inv perm]
  from inv have l: "nframes r = int (length (frames (t_ec r)))" "nframes r = int (length (frames (t_eig r)))"
    "nframes r = int (length (frames (t_fc r)))" "nframes r = int (length (frames (t_gvx r)))"
    unfolding force_inv_def by blast+
  have nd': "\<not> (batch_size r = nframes r \<and> nframes r = 1)" using nd by auto
  have sl: "py_slice_to (if int (length (idx_queue r)) < batch_size r then perm else idx_queue r) (batch_size r)
              = take (nat (batch_size r)) (refilled perm r)"
       "py_slice_from (if int (length (idx_queue r)) < batch_size r then perm else idx_queue r) (batch_size r)
              = drop (nat (batch_size r)) (refilled perm r)"
    using f(3,4) by (simp_all add: refilled_def)
  show ?thesis
    unfolding ForceReader_sample_train_def
    using nd' sl np_take_in_range [OF f(1) l(1)] np_take_in_range [OF f(1) l(2)]
      np_take_in_range [OF f(1) l(3)] np_take_in_range [OF f(1) l(4)]
    by (auto simp add: ebind_def Let_def)
qed

lemma OrbitalReader_sample_train_eq:
  assumes inv: "orbital_inv r"
      and nd: "\<not> (nframes r = 1 \<and> batch_size r = 1)"
      and perm: "is_permutation (nframes r) perm"
  shows "OrbitalReader_sample_train perm r =
           Inr ((t_ec r\<lparr>frames := map (\<lambda>i. frames (t_ec r) ! nat i) (take (nat (batch_size r)) (refilled perm r))\<rparr>,
                 t_eig r\<lparr>frames := map (\<lambda>i. frames (t_eig r) ! nat i) (take (nat (batch_size r)) (refilled perm r))\<rparr>,
                 t_fc r\<lparr>frames := map (\<lambda>i. frames (t_fc r) ! nat i) (take (nat (batch_size r)) (refilled perm r))\<rparr>,
                 t_gvx r\<lparr>frames := map (\<lambda>i. frames (t_gvx r) ! nat i) (take (nat (batch_size r)) (refilled perm r))\<rparr>,
                 t_oc r\<lparr>frames := map (\<lambda>i. frames (t_oc r) ! nat i) (take (nat (batch_size r)) (refilled perm r))\<rparr>,
                 t_op r\<lparr>frames := map (\<lambda>i. frames (t_op r) ! nat i) (take (nat (batch_size r)) (refilled perm r))\<rparr>),
                r\<lparr>idx_queue := drop (nat (batch_size r)) (refilled perm r)\<rparr>)"
proof -
  from inv have finv: "force_inv r" by (simp add: orbital_inv_def)
  note f = refilled_facts [OF finv perm]
  from finv have l: "nframes r = int (length (frames (t_ec r)))" "nframes r = int (length (frames (t_eig r)))"
    "nframes r = int (length (frames (t_fc r)))" "nframes r = int (length (frames (t_gvx r)))"
    unfolding force_inv_def by blast+
  from inv have lo: "nframes r = int (length (frames (t_oc r)))" "nframes r = int (length (frames (t_op r)))"
    unfolding orbital_inv_def by blast+
  have nd': "\<not> (batch_size r = nframes r \<and> nframes r = 1)" using nd by auto
  have sl: "py_slice_to (if int (length (idx_queue r)) < batch_size r then perm else idx_queue r) (batch_size r)
              = take (nat (batch_size r)) (refilled perm r)"
       "py_slice_from (if int (length (idx_queue r)) < batch_size r then perm else idx_queue r) (batch_size r)
              = drop (nat (batch_size r)) (refilled perm r)"
    using f(3,4) by (simp_all add: refilled_def)
  show ?thesis
    unfolding OrbitalReader_sample_train_def
    using nd' sl np_take_in_range [OF f(1) l(1)] np_take_in_range [OF f(1) l(2)]
      np_take_in_range [OF f(1) l(3)] np_take_in_range [OF f(1) l(4)]
      np_take_in_range [OF f(1) lo(1)] np_take_in_range [OF f(1) lo(2)]
    by (auto simp add: ebind_def Let_def)
qed

lemma force_inv_step:
  assumes inv: "force_inv r" and perm: "is_permutation (nframes r) perm"
  shows "force_inv (r\<lparr>idx_queue := drop (nat (batch_size r)) (refilled perm r)\<rparr>)"
proof -
  note f = refilled_facts [OF inv perm]
  from inv have e: "0 \<le> batch_size r \<or> idx_queue r = []" unfolding force_inv_def by blast
  have 1: "list_all (\<lambda>i. 0 \<le> i \<and> i < nframes r) (drop (nat (batch_size r)) (refilled perm r))"
    using f(1) by (auto simp: list_all_iff dest: in_set_dropD)
  have 2: "0 \<le> batch_size r \<or> drop (nat (batch_size r)) (refilled perm r) = []"
    using e by (auto simp: refilled_def)
  show ?thesis using inv 1 2 by (simp add: force_inv_def)
qed

text \<open>
  C2 (queue sampling). For a force reader and for an orbital reader as \<open>prepare\<close> leaves
  them and \<open>sample_train\<close> keeps them, outside the case \<open>nframes = batch_size = 1\<close>, and
  for every permutation of the \<open>nframes\<close> indices the generator may return: the call
  returns; if the queue held fewer than \<open>batch_size\<close> indices the whole queue is replaced
  by the permutation; the sample indices are the first \<open>batch_size\<close> entries of the queue,
  always exactly \<open>batch_size\<close> of them; they are removed from the front of the queue; each
  returned tensor holds the frames of the stored tensor at these indices; and nothing but
  the queue changes in the reader, so the stored tensors are not reordered.
\<close>

theorem sample_train_queue:
  "(force_inv fr \<and> \<not> (nframes fr = 1 \<and> batch_size fr = 1) \<and> is_permutation (nframes fr) perm \<longrightarrow>
      (\<exists>b_ec b_eig b_fc b_gvx fr'.
         ForceReader_sample_train perm fr = Inr ((b_ec, b_eig, b_fc, b_gvx), fr') \<and>
         fr' = fr\<lparr>idx_queue := drop (nat (batch_size fr)) (refilled perm fr)\<rparr> \<and>
         length (take (nat (batch_size fr)) (refilled perm fr)) = nat (batch_size fr) \<and>
         frames b_ec = map (\<lambda>i. frames (t_ec fr) ! nat i) (take (nat (batch_size fr)) (refilled perm fr)) \<and>
         frames b_eig = map (\<lambda>i. frames (t_eig fr) ! nat i) (take (nat (batch_size fr)) (refilled perm fr)) \<and>
         frames b_fc = map (\<lambda>i. frames (t_fc fr) ! nat i) (take (nat (batch_size fr)) (refilled perm fr)) \<and>
         frames b_gvx = map (\<lambda>i. frames (t_gvx fr) ! nat i) (take (nat (batch_size fr)) (refilled perm fr)) \<and>
         force_inv fr')) \<and>
   (orbital_inv orb \<and> \<not> (nframes orb = 1 \<and> batch_size orb = 1) \<and> is_permutation (nframes orb) perm \<longrightarrow>
      (\<exists>b_ec b_eig b_fc b_gvx b_oc b_op orb'.
         OrbitalReader_sample_train perm orb = Inr ((b_ec, b_eig, b_fc, b_gvx, b_oc, b_op), orb') \<and>
         orb' = orb\<lparr>idx_queue := drop (nat (batch_size orb)) (refilled perm orb)\<rparr> \<and>
         length (take (nat (batch_size orb)) (refilled perm orb)) = nat (batch_size orb) \<and>
         frames b_ec = map (\<lambda>i. frames (t_ec orb) ! nat i) (take (nat (batch_size orb)) (refilled perm orb)) \<and>
         frames b_eig = map (\<lambda>i. frames (t_eig orb) ! nat i) (take (nat (batch_size orb)) (refilled perm orb)) \<and>
         frames b_fc = map (\<lambda>i. frames (t_fc orb) ! nat i) (take (nat (batch_size orb)) (refilled perm orb)) \<and>
         frames b_gvx = map (\<lambda>i. frames (t_gvx orb) ! nat i) (take (nat (batch_size orb)) (refilled perm orb)) \<and>
         frames b_oc = map (\<lambda>i. frames (t_oc orb) ! nat i) (take (nat (batch_size orb)) (refilled perm orb)) \<and>
         frames b_op = map (\<lambda>i. frames (t_op orb) ! nat i) (take (nat (batch_size orb)) (refilled perm orb)) \<and>
         orbital_inv orb'))"
proof (intro conjI impI)
  assume a: "force_inv fr \<and> \<not> (nframes fr = 1 \<and> batch_size fr = 1) \<and> is_permutation (nframes fr) perm"
  then have inv: "force_inv fr" and nd: "\<not> (nframes fr = 1 \<and> batch_size fr = 1)"
    and perm: "is_permutation (nframes fr) perm" by blast+
  have len: "length (take (nat (batch_size fr)) (refilled perm fr)) = nat (batch_size fr)"
    using refilled_facts(2) [OF inv perm] by simp
  show "\<exists>b_ec b_eig b_fc b_gvx fr'.
         ForceReader_sample_train perm fr = Inr ((b_ec, b_eig, b_fc, b_gvx), fr') \<and>
         fr' = fr\<lparr>idx_queue := drop (nat (batch_size fr)) (refilled perm fr)\<rparr> \<and>
         length (take (nat (batch_size fr)) (refilled perm fr)) = nat (batch_size fr) \<and>
         frames b_ec = map (\<lambda>i. frames (t_ec fr) ! nat i) (take (nat (batch_size fr)) (refilled perm fr)) \<and>
         frames b_eig = map (\<lambda>i. frames (t_eig fr) ! nat i) (take (nat (batch_size fr)) (refilled perm fr)) \<and>
         frames b_fc = map (\<lambda>i. frames (t_fc fr) ! nat i) (take (nat (batch_size fr)) (refilled perm fr)) \<and>
         frames b_gvx = map (\<lambda>i. frames (t_gvx fr) ! nat i) (take (nat (batch_size fr)) (refilled perm fr)) \<and>
         force_inv fr'"
    unfolding ForceReader_sample_train_eq [OF inv nd perm]
    using len force_inv_step [OF inv perm] by simp
next
  assume a: "orbital_inv orb \<and> \<not> (nframes orb = 1 \<and> batch_size orb = 1) \<and> is_permutation (nframes orb) perm"
  then have inv: "orbital_inv orb" and nd: "\<not> (nframes orb = 1 \<and> batch_size orb = 1)"
    and perm: "is_permutation (nframes orb) perm" by blast+
  from inv have finv: "force_inv orb" by (simp add: orbital_inv_def)
  have len: "length (take (nat (batch_size orb)) (refilled perm orb)) = nat (batch_size orb)"
    using refilled_facts(2) [OF finv perm] by simp
  have inv': "orbital_inv (orb\<lparr>idx_queue := drop (nat (batch_size orb)) (refilled perm orb)\<rparr>)"
    using force_inv_step [OF finv perm] inv by (simp add: orbital_inv_def)
  show "\<exists>b_ec b_eig b_fc b_gvx b_oc b_op orb'.
         OrbitalReader_sample_train perm orb = Inr ((b_ec, b_eig, b_fc, b_gvx, b_oc, b_op), orb') \<and>
         orb' = orb\<lparr>idx_queue := drop (nat (batch_size orb)) (refilled perm orb)\<rparr> \<and>
         length (take (nat (batch_size orb)) (refilled perm orb)) = nat (batch_size orb) \<and>
         frames b_ec = map (\<lambda>i. frames (t_ec orb) ! nat i) (take (nat (batch_size orb)) (refilled perm orb)) \<and>
         frames b_eig = map (\<lambda>i. frames (t_eig orb) ! nat i) (take (nat (batch_size orb)) (refilled perm orb)) \<and>
         frames b_fc = map (\<lambda>i. frames (t_fc orb) ! nat i) (take (nat (batch_size orb)) (refilled perm orb)) \<and>
         frames b_gvx = map (\<lambda>i. frames (t_gvx orb) ! nat i) (take (nat (batch_size orb)) (refilled perm orb)) \<and>
         frames b_oc = map (\<lambda>i. frames (t_oc orb) ! nat i) (take (nat (batch_size orb)) (refilled perm orb)) \<and>
         frames b_op = map (\<lambda>i. frames (t_op orb) ! nat i) (take (nat (batch_size orb)) (refilled perm orb)) \<and>
         orbital_inv orb'"
    unfolding OrbitalReader_sample_train_eq [OF inv nd perm]
    using len inv' by simp
qed

text \<open>
  The example: index 2 is left in the queue, which is less than a batch, so the queue
  is replaced by the new permutation \<open>[1, 2, 0, 3]\<close>; the batch is its first three
  indices and index 2 of the old queue is not served as a short batch.
\<close>

theorem sample_train_queue_witness:
  "(force_inv freader4 \<and> \<not> (nframes freader4 = 1 \<and> batch_size freader4 = 1) \<and>
    is_permutation (nframes freader4) [1, 2, 0, 3]) \<and>
   (orbital_inv oreader4 \<and> \<not> (nframes oreader4 = 1 \<and> batch_size oreader4 = 1) \<and>
    is_permutation (nframes oreader4) [1, 2, 0, 3]) \<and>
   (\<exists>b_ec b_eig b_fc b_gvx fr'.
      ForceReader_sample_train [1, 2, 0, 3] freader4 = Inr ((b_ec, b_eig, b_fc, b_gvx), fr') \<and>
      idx_queue fr' = [3] \<and> frames b_ec = [[1], [2], [0]] \<and> frames b_eig = [[11], [12], [10]]) \<and>
   (\<exists>b_ec b_eig b_fc b_gvx b_oc b_op orb'.
      OrbitalReader_sample_train [1, 2, 0, 3] oreader4 = Inr ((b_ec, b_eig, b_fc, b_gvx, b_oc, b_op), orb') \<and>
      idx_queue orb' = [3] \<and> frames b_ec = [[1], [2], [0]] \<and> frames b_oc = [[21], [22], [20]])"
proof -
  have h1: "force_inv freader4 \<and> \<not> (nframes freader4 = 1 \<and> batch_size freader4 = 1) \<and>
    is_permutation (nframes freader4) [1, 2, 0, 3]"
    by (simp add: force_inv_def freader4_def is_permutation_def upto.simps)
  have h2: "orbital_inv oreader4 \<and> \<not> (nframes oreader4 = 1 \<and> batch_size oreader4 = 1) \<and>
    is_permutation (nframes oreader4) [1, 2, 0, 3]"
    by (simp add: orbital_inv_def force_inv_def oreader4_def is_permutation_def upto.simps)
  have r1: "refilled [1, 2, 0, 3] freader4 = [1, 2, 0, 3]" by (simp add: refilled_def freader4_def)
  have r2: "refilled [1, 2, 0, 3] oreader4 = [1, 2, 0, 3]" by (simp add: refilled_def oreader4_def)
  note t = sample_train_queue [of freader4 "[1, 2, 0, 3]" oreader4]
  from t h1 obtain b_ec b_eig b_fc b_gvx fr' where
    f: "ForceReader_sample_train [1, 2, 0, 3] freader4 = Inr ((b_ec, b_eig, b_fc, b_gvx), fr')"
       "fr' = freader4\<lparr>idx_queue := drop (nat (batch_size freader4)) (refilled [1, 2, 0, 3] freader4)\<rparr>"
       "frames b_ec = map (\<lambda>i. frames (t_ec freader4) ! nat i) (take (nat (batch_size freader4)) (refilled [1, 2, 0, 3] freader4))"
       "frames b_eig = map (\<lambda>i. frames (t_eig freader4) ! nat i) (take (nat (batch_size freader4)) (refilled [1, 2, 0, 3] freader4))"
    by blast
  from t h2 obtain c_ec c_eig c_fc c_gvx c_oc c_op orb' where
    g: "OrbitalReader_sample_train [1, 2, 0, 3] oreader4 = Inr ((c_ec, c_eig, c_fc, c_gvx, c_oc, c_op), orb')"
       "orb' = oreader4\<lparr>idx_queue := drop (nat (batch_size oreader4)) (refilled [1, 2, 0, 3] oreader4)\<rparr>"
       "frames c_ec = map (\<lambda>i. frames (t_ec oreader4) ! nat i) (take (nat (batch_size oreader4)) (refilled [1, 2, 0, 3] oreader4))"
       "frames c_oc = map (\<lambda>i. frames (t_oc oreader4) ! nat i) (take (nat (batch_size oreader4)) (refilled [1, 2, 0, 3] oreader4))"
    by blast
  have f': "idx_queue fr' = [3]" "frames b_ec = [[1], [2], [0]]" "frames b_eig = [[11], [12], [10]]"
    using f(2,3,4) unfolding r1 by (simp_all add: freader4_def)
  have g': "idx_queue orb' = [3]" "frames c_ec = [[1], [2], [0]]" "frames c_oc = [[21], [22], [20]]"
    using g(2,3,4) unfolding r2 by (simp_all add: oreader4_def)
  show ?thesis using h1 h2 f(1) f' g(1) g' by blast
qed

text \<open>
  C8 (batch-size clamping). In each of the three classes, when \<open>prepare\<close> returns, the
  reader's \<open>nframes\<close> is the number of frames the convergence mask retains and its
  \<open>batch_size\<close> is the smaller of the requested batch size and \<open>nframes\<close>, so it is never
  larger than \<open>nframes\<close>; the line "reset batch size" is printed exactly when the
  requested size was larger. The clamping is not fatal: whether \<open>prepare\<close> raises does
  not depend on the requested batch size.
\<close>

theorem prepare_clamps_batch_size:
  "(Reader_prepare path rs bs cf na np = Inr (r, l) \<longrightarrow>
      nframes r = retained_frames cf rs \<and> batch_size r = min bs (nframes r) \<and>
      batch_size r \<le> nframes r \<and>
      l = (if nframes r < bs then [ResetBatchSize path (nframes r)] else [])) \<and>
   (ForceReader_prepare path rs bs cf na np = Inr (fr, lf) \<longrightarrow>
      nframes fr = retained_frames cf rs \<and> batch_size fr = min bs (nframes fr) \<and>
      batch_size fr \<le> nframes fr \<and>
      lf = (if nframes fr < bs then [ResetBatchSize path (nframes fr)] else [])) \<and>
   (OrbitalReader_prepare path rs bs cf na np = Inr (orb, lo) \<longrightarrow>
      nframes orb = retained_frames cf rs \<and> batch_size orb = min bs (nframes orb) \<and>
      batch_size orb \<le> nframes orb \<and>
      lo = (if nframes orb < bs then [ResetBatchSize path (nframes orb)] else [])) \<and>
   isl (Reader_prepare path rs bs cf na np) = isl (Reader_prepare path rs bs' cf na np) \<and>
   isl (ForceReader_prepare path rs bs cf na np) = isl (ForceReader_prepare path rs bs' cf na np) \<and>
   isl (OrbitalReader_prepare path rs bs cf na np) = isl (OrbitalReader_prepare path rs bs' cf na np)"
proof -
  have a: "Reader_prepare path rs bs cf na np = Inr (r, l) \<longrightarrow>
      nframes r = retained_frames cf rs \<and> batch_size r = min bs (nframes r) \<and>
      batch_size r \<le> nframes r \<and>
      l = (if nframes r < bs then [ResetBatchSize path (nframes r)] else [])"
    using Reader_prepare_facts [of path rs bs cf na np r l] by auto
  have b: "ForceReader_prepare path rs bs cf na np = Inr (fr, lf) \<longrightarrow>
      nframes fr = retained_frames cf rs \<and> batch_size fr = min bs (nframes fr) \<and>
      batch_size fr \<le> nframes fr \<and>
      lf = (if nframes fr < bs then [ResetBatchSize path (nframes fr)] else [])"
    using ForceReader_prepare_facts [of path rs bs cf na np fr lf] by auto
  have c: "OrbitalReader_prepare path rs bs cf na np = Inr (orb, lo) \<longrightarrow>
      nframes orb = retained_frames cf rs \<and> batch_size orb = min bs (nframes orb) \<and>
      batch_size orb \<le> nframes orb \<and>
      lo = (if nframes orb < bs then [ResetBatchSize path (nframes orb)] else [])"
    using OrbitalReader_prepare_facts [of path rs bs cf na np orb lo] by auto
  have d: "isl (Reader_prepare path rs bs cf na np) = isl (Reader_prepare path rs bs' cf na np)"
    unfolding Reader_prepare_def Let_def ebind_def by (simp split: sum.splits)
  have e: "isl (ForceReader_prepare path rs bs cf na np) = isl (ForceReader_prepare path rs bs' cf na np)"
    unfolding ForceReader_prepare_def Let_def ebind_def by (simp split: sum.splits)
  have f: "isl (OrbitalReader_prepare path rs bs cf na np) = isl (OrbitalReader_prepare path rs bs' cf na np)"
    unfolding OrbitalReader_prepare_def Let_def ebind_def by (simp split: sum.splits)
  from a b c d e f show ?thesis by blast
qed

text \<open>
  The example of the specification: three raw frames, requested batch size 10, a mask
  that is true everywhere give \<open>nframes = 3\<close> and \<open>batch_size = 3\<close>.
\<close>

theorem prepare_clamps_batch_size_witness:
  "(\<exists>r l. Reader_prepare ''s'' raw3 10 True 1 1 = Inr (r, l) \<and>
       nframes r = 3 \<and> batch_size r = 3 \<and> l = [ResetBatchSize ''s'' 3]) \<and>
   (\<exists>r l. ForceReader_prepare ''s'' raw3 10 True 1 1 = Inr (r, l) \<and>
       nframes r = 3 \<and> batch_size r = 3 \<and> l = [ResetBatchSize ''s'' 3]) \<and>
   (\<exists>r l. OrbitalReader_prepare ''s'' raw3 10 True 1 1 = Inr (r, l) \<and>
       nframes r = 3 \<and> batch_size r = 3 \<and> l = [ResetBatchSize ''s'' 3])"
proof -
  have rf: "retained_frames True raw3 = 3" by (simp add: retained_frames_def raw3_def)
  obtain r l where 1: "Reader_prepare ''s'' raw3 10 True 1 1 = Inr (r, l)"
    by (simp add: Reader_prepare_def raw3_def np_reshape_col_def np_reshape_def blocks_def load_conv_def
     np_reshape_bool_def np_mask_def np_concatenate_last_def ebind_def Let_def)
  obtain fr lf where 2: "ForceReader_prepare ''s'' raw3 10 True 1 1 = Inr (fr, lf)"
    by (simp add: ForceReader_prepare_def raw3_def np_reshape_col_def np_reshape_def blocks_def load_conv_def
     np_reshape_bool_def np_mask_def load_d_def ebind_def Let_def)
  obtain orb lo where 3: "OrbitalReader_prepare ''s'' raw3 10 True 1 1 = Inr (orb, lo)"
    by (simp add: OrbitalReader_prepare_def raw3_def np_reshape_col_def np_reshape_def blocks_def load_conv_def
     np_reshape_bool_def np_mask_def load_d_def np_reshape_infer_def ebind_def Let_def)
  note t = prepare_clamps_batch_size [of "''s''" raw3 10 True 1 1 r l fr lf orb lo]
  from t 1 rf have a: "nframes r = 3 \<and> batch_size r = 3 \<and> l = [ResetBatchSize ''s'' 3]" by simp
  from t 2 rf have b: "nframes fr = 3 \<and> batch_size fr = 3 \<and> lf = [ResetBatchSize ''s'' 3]" by simp
  from t 3 rf have c: "nframes orb = 3 \<and> batch_size orb = 3 \<and> lo = [ResetBatchSize ''s'' 3]" by simp
  show ?thesis using 1 2 3 a b c by blast
qed

lemma load_readers_ok:
  assumes "\<forall>p\<in>set pl. \<not> isl (mk p)" 
  shows "load_readers mk pl =
           Inr (filter (\<lambda>a. get_nframes a \<noteq> 0) (map (opened mk) pl),
                concat (map (\<lambda>p. opened_log mk p @
                          (if get_nframes (opened mk p) = 0 then [IgnoreEmpty p] else [])) pl))"
  using assms
proof (induction pl)
  case Nil
  then show ?case by simp
next
  case (Cons p pl)
  then obtain a l where m: "mk p = Inr (a, l)" by (cases "mk p") auto
  from Cons have ih: "load_readers mk pl =
           Inr (filter (\<lambda>a. get_nframes a \<noteq> 0) (map (opened mk) pl),
                concat (map (\<lambda>p. opened_log mk p @
                          (if get_nframes (opened mk p) = 0 then [IgnoreEmpty p] else [])) pl))"
    by simp
  have o: "opened mk p = a" "opened_log mk p = l" by (simp_all add: m opened_def opened_log_def)
  show ?case
    by (simp add: m ih ebind_def o)
qed

lemma init_readers:
  assumes ok: "\<forall>p\<in>set (paths_of paths). \<not> isl (open_reader fs (Reader_class w_orb w_force) bs cf p)"
  shows "GroupReader_init fs paths bs gb w_force w_orb cf =
     (let mk = open_reader fs (Reader_class w_orb w_force) bs cf;
          rds = filter (\<lambda>a. get_nframes a \<noteq> 0) (map (opened mk) (paths_of paths));
          l = concat (map (\<lambda>p. opened_log mk p @
                          (if get_nframes (opened mk p) = 0 then [IgnoreEmpty p] else [])) (paths_of paths));
          nfs = map get_nframes rds
      in if rds = [] then Inl IndexError
         else Inr (\<lparr>path_list = paths_of paths, g_batch_size = bs, readers = rds, g_nframes = nfs,
                         nsystems = length rds, g_ndesc = r_ndesc (hd rds),
                         sys_prob = map (\<lambda>ii. real_of_int ii / real_of_int (sum_list nfs)) nfs,
                         group_batch = max gb 1,
                         groups = (if max gb 1 > 1 then Some (make_groups rds nfs) else None),
                         sample_used = 0\<rparr>, l))"
proof -
  have p: "(case paths of PathStr p \<Rightarrow> [p] | PathList ps \<Rightarrow> ps) = paths_of paths"
    by (simp add: paths_of_def)
  define rds where
    "rds = filter (\<lambda>a. get_nframes a \<noteq> 0)
             (map (opened (open_reader fs (Reader_class w_orb w_force) bs cf)) (paths_of paths))"
  show ?thesis
    unfolding GroupReader_init_def p Let_def load_readers_ok [OF ok] rds_def [symmetric]
    by (cases rds) (simp_all add: ebind_def)
qed

text \<open>
  C9 (empty systems are dropped). When the reader class returns a reader for every
  path and at least one of these readers has a frame, \<open>__init__\<close> returns: the readers
  of the group reader are the readers with a frame, in the order of the paths; a line
  "ignore empty dataset" is printed for every path whose reader has none; and the train
  size is the sum of \<open>nframes\<close> over the readers that were kept.
\<close>

theorem GroupReader_drops_empty:
  assumes ok: "\<forall>p\<in>set (paths_of paths). \<not> isl (open_reader fs (Reader_class w_orb w_force) bs cf p)"
      and ne: "\<exists>p\<in>set (paths_of paths).
                 get_nframes (opened (open_reader fs (Reader_class w_orb w_force) bs cf) p) \<noteq> 0"
  shows "\<exists>g l. GroupReader_init fs paths bs gb w_force w_orb cf = Inr (g, l) \<and>
           readers g = filter (\<lambda>a. get_nframes a \<noteq> 0)
                         (map (opened (open_reader fs (Reader_class w_orb w_force) bs cf)) (paths_of paths)) \<and>
           (\<forall>a\<in>set (readers g). get_nframes a \<noteq> 0) \<and>
           nsystems g = length (readers g) \<and>
           get_train_size g = sum_list (map get_nframes (readers g)) \<and>
           (\<forall>p\<in>set (paths_of paths).
              get_nframes (opened (open_reader fs (Reader_class w_orb w_force) bs cf) p) = 0
              \<longrightarrow> IgnoreEmpty p \<in> set l)"
proof -
  let ?mk = "open_reader fs (Reader_class w_orb w_force) bs cf"
  from ne have "filter (\<lambda>a. get_nframes a \<noteq> 0) (map (opened ?mk) (paths_of paths)) \<noteq> []"
    by (auto simp: filter_empty_conv)
  then show ?thesis
    unfolding init_readers [OF ok] Let_def
    by (auto simp: get_train_size_def)
qed

text \<open>
  The example of the specification: of a system without a converged frame and a system
  with five, one is kept and the train size is 5.
\<close>

theorem GroupReader_drops_empty_witness:
  "\<exists>g l. GroupReader_init fs_ab (PathList [''a'', ''b'']) 2 1 False False True = Inr (g, l) \<and>
      length (readers g) = 1 \<and> nsystems g = 1 \<and> get_train_size g = 5 \<and> IgnoreEmpty ''a'' \<in> set l"
proof -
  have a: "open_reader fs_ab (Reader_class False False) 2 True ''a'' =
             Inr (PlainR \<lparr>data_path = ''a'', batch_size = 0, c_filter = True, natm = 1, nproj = 1,
                    ndesc = 1, nframes = 0, data_ec = \<lparr>fshape = [1], frames = []\<rparr>,
                    data_dm = \<lparr>fshape = [1, 1], frames = []\<rparr>, index_count_all = 0\<rparr>,
                  [ResetBatchSize ''a'' 0])"
    by (simp add: open_reader_def fs_ab_def raw_a_def Reader_class_def new_reader_def Reader_init_def
        Reader_load_meta_def Reader_prepare_def np_reshape_col_def np_reshape_def blocks_def
        load_conv_def np_reshape_bool_def np_mask_def np_concatenate_last_def ebind_def Let_def)
  have b: "open_reader fs_ab (Reader_class False False) 2 True ''b'' =
             Inr (PlainR \<lparr>data_path = ''b'', batch_size = 2, c_filter = True, natm = 1, nproj = 1,
                    ndesc = 1, nframes = 5, data_ec = \<lparr>fshape = [1], frames = [[1], [2], [3], [4], [5]]\<rparr>,
                    data_dm = \<lparr>fshape = [1, 1], frames = [[6], [7], [8], [9], [10]]\<rparr>,
                    index_count_all = 0\<rparr>, [])"
    by (simp add: open_reader_def fs_ab_def raw_b_def Reader_class_def new_reader_def Reader_init_def
        Reader_load_meta_def Reader_prepare_def np_reshape_col_def np_reshape_def blocks_def
        load_conv_def np_reshape_bool_def np_mask_def np_concatenate_last_def ebind_def Let_def)
  have na: "get_nframes (opened (open_reader fs_ab (Reader_class False False) 2 True) ''a'') = 0"
    by (simp add: opened_def a get_nframes_def)
  have nb: "get_nframes (opened (open_reader fs_ab (Reader_class False False) 2 True) ''b'') = 5"
    by (simp add: opened_def b get_nframes_def)
  have h1: "\<forall>p\<in>set (paths_of (PathList [''a'', ''b''])).
      \<not> isl (open_reader fs_ab (Reader_class False False) 2 True p)"
    by (simp add: paths_of_def a b)
  have h2: "\<exists>p\<in>set (paths_of (PathList [''a'', ''b''])).
      get_nframes (opened (open_reader fs_ab (Reader_class False False) 2 True) p) \<noteq> 0"
    by (simp add: paths_of_def nb)
  from GroupReader_drops_empty [OF h1 h2, of 1] obtain g l where
    i: "GroupReader_init fs_ab (PathList [''a'', ''b'']) 2 1 False False True = Inr (g, l)"
    and r: "readers g = filter (\<lambda>a. get_nframes a \<noteq> 0)
                         (map (opened (open_reader fs_ab (Reader_class False False) 2 True))
                            (paths_of (PathList [''a'', ''b''])))"
    and n: "nsystems g = length (readers g)"
    and t: "get_train_size g = sum_list (map get_nframes (readers g))"
    and d: "\<forall>p\<in>set (paths_of (PathList [''a'', ''b''])).
              get_nframes (opened (open_reader fs_ab (Reader_class False False) 2 True) p) = 0
              \<longrightarrow> IgnoreEmpty p \<in> set l"
    by blast
  have r': "readers g = [opened (open_reader fs_ab (Reader_class False False) 2 True) ''b'']"
    using r by (simp add: paths_of_def na nb)
  have "length (readers g) = 1 \<and> nsystems g = 1 \<and> get_train_size g = 5 \<and> IgnoreEmpty ''a'' \<in> set l"
    using r' n t d by (simp add: paths_of_def na nb)
  with i show ?thesis by blast
qed

text \<open>
  C10 (no system with a frame). When the reader class returns a reader for every path
  and none of these readers has a frame (in particular when there is no path),
  \<open>__init__\<close> raises \<open>IndexError\<close>, from \<open>self.readers[0]\<close>: no group reader exists
  to sample from.
\<close>

theorem GroupReader_all_empty_fails:
  assumes ok: "\<forall>p\<in>set (paths_of paths). \<not> isl (open_reader fs (Reader_class w_orb w_force) bs cf p)"
      and em: "\<forall>p\<in>set (paths_of paths).
                 get_nframes (opened (open_reader fs (Reader_class w_orb w_force) bs cf) p) = 0"
  shows "GroupReader_init fs paths bs gb w_force w_orb cf = Inl IndexError"
proof -
  let ?mk = "open_reader fs (Reader_class w_orb w_force) bs cf"
  from em have "filter (\<lambda>a. get_nframes a \<noteq> 0) (map (opened ?mk) (paths_of paths)) = []"
    by (auto simp: filter_empty_conv)
  then show ?thesis
    unfolding init_readers [OF ok] Let_def by simp
qed

text \<open>The example: the one system without a converged frame, and the empty list of paths.\<close>

theorem GroupReader_all_empty_fails_witness:
  "GroupReader_init fs_ab (PathStr ''a'') 2 1 False False True = Inl IndexError \<and>
   GroupReader_init fs_ab (PathList []) 2 1 False False True = Inl IndexError"
proof -
  have a: "open_reader fs_ab (Reader_class False False) 2 True ''a'' =
             Inr (PlainR \<lparr>data_path = ''a'', batch_size = 0, c_filter = True, natm = 1, nproj = 1,
                    ndesc = 1, nframes = 0, data_ec = \<lparr>fshape = [1], frames = []\<rparr>,
                    data_dm = \<lparr>fshape = [1, 1], frames = []\<rparr>, index_count_all = 0\<rparr>,
                  [ResetBatchSize ''a'' 0])"
    by (simp add: open_reader_def fs_ab_def raw_a_def Reader_class_def new_reader_def Reader_init_def
        Reader_load_meta_def Reader_prepare_def np_reshape_col_def np_reshape_def blocks_def
        load_conv_def np_reshape_bool_def np_mask_def np_concatenate_last_def ebind_def Let_def)
  have h1: "\<forall>p\<in>set (paths_of (PathStr ''a'')).
      \<not> isl (open_reader fs_ab (Reader_class False False) 2 True p)"
    by (simp add: paths_of_def a)
  have h2: "\<forall>p\<in>set (paths_of (PathStr ''a'')).
      get_nframes (opened (open_reader fs_ab (Reader_class False False) 2 True) p) = 0"
    by (simp add: paths_of_def opened_def a get_nframes_def)
  have e1: "\<forall>p\<in>set (paths_of (PathList [])).
      \<not> isl (open_reader fs_ab (Reader_class False False) 2 True p)"
    by (simp add: paths_of_def)
  have e2: "\<forall>p\<in>set (paths_of (PathList [])).
      get_nframes (opened (open_reader fs_ab (Reader_class False False) 2 True) p) = 0"
    by (simp add: paths_of_def)
  show ?thesis
    using GroupReader_all_empty_fails [OF h1 h2, of 1]
      GroupReader_all_empty_fails [OF e1 e2, of 1] by blast
qed

lemma ebind_Inr: "ebind m f = Inr y \<Longrightarrow> \<exists>x. m = Inr x \<and> f x = Inr y"
  by (cases m) (simp_all add: ebind_def)

lemma np_take_fshape: "np_take a ind = Inr b \<Longrightarrow> fshape b = fshape a \<and> length (frames b) = length ind"
  by (auto simp: np_take_def Let_def split: if_splits)

lemma Reader_sample_train_keeps:
  assumes "Reader_sample_train perm r = Inr ((be, bd), r')"
  shows "nframes r' = nframes r \<and> batch_size r' = batch_size r \<and> natm r' = natm r \<and>
         ndesc r' = ndesc r \<and> nproj r' = nproj r \<and>
         fshape (data_ec r') = fshape (data_ec r) \<and> fshape (data_dm r') = fshape (data_dm r) \<and>
         fshape be = fshape (data_ec r) \<and> fshape bd = fshape (data_dm r)"
  using assms unfolding Reader_sample_train_def Let_def Reader_sample_all_def
  by (auto split: if_splits dest!: ebind_Inr np_take_fshape)

lemma ForceReader_sample_train_keeps:
  assumes "ForceReader_sample_train perm r = Inr ((b1, b2, b3, b4), r')"
  shows "nframes r' = nframes r \<and> batch_size r' = batch_size r \<and> natm r' = natm r \<and>
         ndesc r' = ndesc r \<and> nproj r' = nproj r \<and> data_ec r' = data_ec r \<and> data_dm r' = data_dm r \<and>
         t_ec r' = t_ec r \<and> t_eig r' = t_eig r \<and> t_fc r' = t_fc r \<and> t_gvx r' = t_gvx r \<and>
         fshape b1 = fshape (t_ec r) \<and> fshape b2 = fshape (t_eig r) \<and>
         fshape b3 = fshape (t_fc r) \<and> fshape b4 = fshape (t_gvx r)"
  using assms unfolding ForceReader_sample_train_def Let_def ForceReader_sample_all_def
  by (auto split: if_splits dest!: ebind_Inr np_take_fshape)

lemma OrbitalReader_sample_train_keeps:
  assumes "OrbitalReader_sample_train perm r = Inr ((b1, b2, b3, b4, b5, b6), r')"
  shows "nframes r' = nframes r \<and> batch_size r' = batch_size r \<and> natm r' = natm r \<and>
         ndesc r' = ndesc r \<and> nproj r' = nproj r \<and> data_ec r' = data_ec r \<and> data_dm r' = data_dm r \<and>
         t_ec r' = t_ec r \<and> t_eig r' = t_eig r \<and> t_fc r' = t_fc r \<and> t_gvx r' = t_gvx r \<and>
         t_oc r' = t_oc r \<and> t_op r' = t_op r \<and>
         fshape b1 = fshape (t_ec r) \<and> fshape b2 = fshape (t_eig r) \<and>
         fshape b3 = fshape (t_fc r) \<and> fshape b4 = fshape (t_gvx r) \<and>
         fshape b5 = fshape (t_oc r) \<and> fshape b6 = fshape (t_op r)"
  using assms unfolding OrbitalReader_sample_train_def Let_def OrbitalReader_sample_all_def
  by (auto split: if_splits dest!: ebind_Inr np_take_fshape)

lemma r_sample_train_keeps:
  assumes "r_sample_train perm a = Inr (b, a')"
  shows "get_nframes a' = get_nframes a \<and> r_batch_size a' = r_batch_size a \<and>
         r_natm a' = r_natm a \<and> r_ndesc a' = r_ndesc a \<and> 2 \<le> length b"
proof (cases a)
  case (PlainR r)
  with assms obtain be bd r' where s: "Reader_sample_train perm r = Inr ((be, bd), r')"
    and e: "b = [be, bd]" "a' = PlainR r'"
    by (auto simp: r_sample_train_def dest!: ebind_Inr)
  from Reader_sample_train_keeps [OF s] show ?thesis
    by (simp add: PlainR e get_nframes_def r_batch_size_def r_natm_def r_ndesc_def)
next
  case (ForceR r)
  with assms obtain b1 b2 b3 b4 r' where s: "ForceReader_sample_train perm r = Inr ((b1, b2, b3, b4), r')"
    and e: "b = [b1, b2, b3, b4]" "a' = ForceR r'"
    by (auto simp: r_sample_train_def dest!: ebind_Inr)
  from ForceReader_sample_train_keeps [OF s] show ?thesis
    by (simp add: ForceR e get_nframes_def r_batch_size_def r_natm_def r_ndesc_def)
next
  case (OrbitalR r)
  with assms obtain b1 b2 b3 b4 b5 b6 r' where
    s: "OrbitalReader_sample_train perm r = Inr ((b1, b2, b3, b4, b5, b6), r')"
    and e: "b = [b1, b2, b3, b4, b5, b6]" "a' = OrbitalR r'"
    by (auto simp: r_sample_train_def dest!: ebind_Inr)
  from OrbitalReader_sample_train_keeps [OF s] show ?thesis
    by (simp add: OrbitalR e get_nframes_def r_batch_size_def r_natm_def r_ndesc_def)
qed

lemma GroupReader_sample_train_keeps:
  assumes "GroupReader_sample_train idx perm g = Inr (b, g')"
  shows "\<exists>a'. g' = g\<lparr>readers := (readers g)[idx := a']\<rparr> \<and> idx < length (readers g) \<and>
           r_sample_train perm (readers g ! idx) = Inr (b, a')"
  using assms unfolding GroupReader_sample_train_def
  by (auto split: if_splits dest!: ebind_Inr)

lemma map_update_same:
  assumes "i < length xs" "f y = f (xs ! i)"
  shows "map f (xs[i := y]) = map f xs"
  using assms by (simp add: map_update list_update_same_conv)

lemma sample_each_keeps:
  assumes "sample_each rds items = Inr (bs, rds')"
  shows "length rds' = length rds \<and> length bs = length items \<and>
         map get_nframes rds' = map get_nframes rds \<and>
         map r_batch_size rds' = map r_batch_size rds \<and>
         map r_natm rds' = map r_natm rds \<and>
         map r_ndesc rds' = map r_ndesc rds \<and>
         (\<forall>b\<in>set bs. 2 \<le> length b)"
  using assms
proof (induction items arbitrary: rds bs rds')
  case Nil
  then show ?case by simp
next
  case (Cons it items)
  obtain i perm where it: "it = (i, perm)" by (cases it)
  from Cons.prems it have i: "i < length rds" by (auto split: if_splits)
  with Cons.prems it obtain b a' bs0 where
    s: "r_sample_train perm (rds ! i) = Inr (b, a')"
    and r: "sample_each (rds[i := a']) items = Inr (bs0, rds')" and e: "bs = b # bs0"
    by (auto dest!: ebind_Inr)
  note k = r_sample_train_keeps [OF s]
  note ih = Cons.IH [OF r]
  have m: "map get_nframes (rds[i := a']) = map get_nframes rds"
    "map r_batch_size (rds[i := a']) = map r_batch_size rds"
    "map r_natm (rds[i := a']) = map r_natm rds"
    "map r_ndesc (rds[i := a']) = map r_ndesc rds"
    using i k by (simp_all add: map_update_same)
  show ?case using ih m k e by simp
qed

lemma emap_length: "emap f xs = Inr ys \<Longrightarrow> length ys = length xs"
  by (induction xs arbitrary: ys) (auto dest!: ebind_Inr)

lemma foldr_min_ge:
  assumes "\<forall>x\<in>set xs. (k::nat) \<le> x" "k \<le> n"
  shows "k \<le> foldr min xs n"
  using assms by (induction xs) auto

lemma py_zip_star_length:
  assumes "xss \<noteq> []" "\<forall>xs\<in>set xss. k \<le> length xs"
  shows "k \<le> length (py_zip_star xss)"
proof -
  obtain xs rest where e: "xss = xs # rest" using assms(1) by (cases xss) auto
  have "k \<le> foldr min (map length xss) (length xs)"
    using assms(2) e by (intro foldr_min_ge) auto
  then show ?thesis by (simp add: py_zip_star_def e)
qed

lemma sample_train_group_keeps:
  assumes "sample_train_group cnatm csys g = Inr (b, g')"
  shows "\<exists>rds'. g' = g\<lparr>readers := rds'\<rparr> \<and> length rds' = length (readers g) \<and>
           map get_nframes rds' = map get_nframes (readers g) \<and>
           map r_batch_size rds' = map r_batch_size (readers g) \<and>
           map r_natm rds' = map r_natm (readers g) \<and>
           map r_ndesc rds' = map r_ndesc (readers g) \<and>
           (csys = [] \<or> 2 \<le> length b)"
proof -
  from assms obtain cgrp all_sample rds' where
    s: "sample_each (readers g) (map (\<lambda>(k, perm). (cgrp ! k, perm)) csys) = Inr (all_sample, rds')"
    and c: "emap torch_cat (py_zip_star all_sample) = Inr b" and g': "g' = g\<lparr>readers := rds'\<rparr>"
    unfolding sample_train_group_def
    by (auto split: option.splits if_splits dest!: ebind_Inr)
  note k = sample_each_keeps [OF s]
  have "csys = [] \<or> 2 \<le> length b"
  proof (cases "csys = []")
    case False
    with k have "all_sample \<noteq> []" by auto
    from py_zip_star_length [OF this, of 2] k have "2 \<le> length (py_zip_star all_sample)" by blast
    with emap_length [OF c] show ?thesis by simp
  qed simp
  with k g' show ?thesis by blast
qed

lemma greader_b_init:
  "GroupReader_init fs_ab (PathStr ''b'') 2 1 False False True = Inr (greader_b, [])"
  by (simp add: GroupReader_init_def open_reader_def fs_ab_def raw_b_def Reader_class_def new_reader_def
        Reader_init_def Reader_load_meta_def Reader_prepare_def np_reshape_col_def np_reshape_def blocks_def
        load_conv_def np_reshape_bool_def np_mask_def np_concatenate_last_def ebind_def Let_def
        greader_b_def get_nframes_def r_ndesc_def)

text \<open>
  C7 (epoch iteration). A call of \<open>__next__\<close> on a group reader whose counter of sampled
  frames is larger than its train size sets the counter to zero and raises
  \<open>StopIteration\<close>. Otherwise it samples one system when \<open>group_batch = 1\<close> and a group
  otherwise; an exception of the sampling passes to the caller; a returned sample is the
  result, and the counter grows by the number of frames of the first tensor of the
  sample. The sampling changes neither the counter nor the frame counts of the readers,
  so the train size stays the sum of \<open>nframes\<close> over the readers.
\<close>

theorem GroupReader_next_protocol:
  "(get_train_size g < sample_used g \<longrightarrow>
      GroupReader_next d g = StopIteration (g\<lparr>sample_used := 0\<rparr>)) \<and>
   (\<not> get_train_size g < sample_used g \<and> group_batch g = 1 \<longrightarrow>
      (case GroupReader_sample_train (dr_idx d) (dr_perm d) g of
         Inl e \<Rightarrow> GroupReader_next d g = Raised e
       | Inr (sample, g') \<Rightarrow>
           GroupReader_next d g =
             Batch sample (g'\<lparr>sample_used := sample_used g + int (length (frames (hd sample)))\<rparr>) \<and>
           sample \<noteq> [] \<and> get_train_size g' = get_train_size g \<and>
           map get_nframes (readers g') = map get_nframes (readers g))) \<and>
   (\<not> get_train_size g < sample_used g \<and> group_batch g \<noteq> 1 \<longrightarrow>
      (case sample_train_group (dr_natm d) (dr_sys d) g of
         Inl e \<Rightarrow> GroupReader_next d g = Raised e
       | Inr (sample, g') \<Rightarrow>
           GroupReader_next d g =
             (if sample = [] then Raised IndexError
              else Batch sample (g'\<lparr>sample_used := sample_used g + int (length (frames (hd sample)))\<rparr>)) \<and>
           (dr_sys d = [] \<or> sample \<noteq> []) \<and> get_train_size g' = get_train_size g \<and>
           map get_nframes (readers g') = map get_nframes (readers g)))"
proof -
  have 1: "get_train_size g < sample_used g \<longrightarrow>
      GroupReader_next d g = StopIteration (g\<lparr>sample_used := 0\<rparr>)"
    by (simp add: GroupReader_next_def)
  have 2: "\<not> get_train_size g < sample_used g \<and> group_batch g = 1 \<longrightarrow>
      (case GroupReader_sample_train (dr_idx d) (dr_perm d) g of
         Inl e \<Rightarrow> GroupReader_next d g = Raised e
       | Inr (sample, g') \<Rightarrow>
           GroupReader_next d g =
             Batch sample (g'\<lparr>sample_used := sample_used g + int (length (frames (hd sample)))\<rparr>) \<and>
           sample \<noteq> [] \<and> get_train_size g' = get_train_size g \<and>
           map get_nframes (readers g') = map get_nframes (readers g))"
  proof (intro impI, elim conjE)
    assume a: "\<not> get_train_size g < sample_used g" "group_batch g = 1"
    show "case GroupReader_sample_train (dr_idx d) (dr_perm d) g of
         Inl e \<Rightarrow> GroupReader_next d g = Raised e
       | Inr (sample, g') \<Rightarrow>
           GroupReader_next d g =
             Batch sample (g'\<lparr>sample_used := sample_used g + int (length (frames (hd sample)))\<rparr>) \<and>
           sample \<noteq> [] \<and> get_train_size g' = get_train_size g \<and>
           map get_nframes (readers g') = map get_nframes (readers g)"
    proof (cases "GroupReader_sample_train (dr_idx d) (dr_perm d) g")
      case (Inl e)
      then show ?thesis using a by (simp add: GroupReader_next_def)
    next
      case (Inr p)
      obtain sample g' where p: "p = (sample, g')" by (cases p)
      from GroupReader_sample_train_keeps [OF Inr [unfolded p]] obtain a' where
        g': "g' = g\<lparr>readers := (readers g)[dr_idx d := a']\<rparr>" and i: "dr_idx d < length (readers g)"
        and s: "r_sample_train (dr_perm d) (readers g ! dr_idx d) = Inr (sample, a')" by blast
      note k = r_sample_train_keeps [OF s]
      from k obtain s0 rest where sm: "sample = s0 # rest" by (cases sample) auto
      have m: "map get_nframes (readers g') = map get_nframes (readers g)"
        using g' i k by (simp add: map_update_same)
      show ?thesis
        using a Inr p sm m g' by (simp add: GroupReader_next_def get_train_size_def)
    qed
  qed
  have 3: "\<not> get_train_size g < sample_used g \<and> group_batch g \<noteq> 1 \<longrightarrow>
      (case sample_train_group (dr_natm d) (dr_sys d) g of
         Inl e \<Rightarrow> GroupReader_next d g = Raised e
       | Inr (sample, g') \<Rightarrow>
           GroupReader_next d g =
             (if sample = [] then Raised IndexError
              else Batch sample (g'\<lparr>sample_used := sample_used g + int (length (frames (hd sample)))\<rparr>)) \<and>
           (dr_sys d = [] \<or> sample \<noteq> []) \<and> get_train_size g' = get_train_size g \<and>
           map get_nframes (readers g') = map get_nframes (readers g))"
  proof (intro impI, elim conjE)
    assume a: "\<not> get_train_size g < sample_used g" "group_batch g \<noteq> 1"
    show "case sample_train_group (dr_natm d) (dr_sys d) g of
         Inl e \<Rightarrow> GroupReader_next d g = Raised e
       | Inr (sample, g') \<Rightarrow>
           GroupReader_next d g =
             (if sample = [] then Raised IndexError
              else Batch sample (g'\<lparr>sample_used := sample_used g + int (length (frames (hd sample)))\<rparr>)) \<and>
           (dr_sys d = [] \<or> sample \<noteq> []) \<and> get_train_size g' = get_train_size g \<and>
           map get_nframes (readers g') = map get_nframes (readers g)"
    proof (cases "sample_train_group (dr_natm d) (dr_sys d) g")
      case (Inl e)
      then show ?thesis using a by (simp add: GroupReader_next_def)
    next
      case (Inr p)
      obtain sample g' where p: "p = (sample, g')" by (cases p)
      from sample_train_group_keeps [OF Inr [unfolded p]] obtain rds' where
        g': "g' = g\<lparr>readers := rds'\<rparr>"
        and m: "map get_nframes rds' = map get_nframes (readers g)"
        and n: "dr_sys d = [] \<or> 2 \<le> length sample" by blast
      from n have n': "dr_sys d = [] \<or> sample \<noteq> []" by auto
      show ?thesis
        using a Inr p m g' n' by (cases sample) (simp_all add: GroupReader_next_def get_train_size_def)
    qed
  qed
  from 1 2 3 show ?thesis by blast
qed

text \<open>
  The example: train size 5 and batch size 2. With the counter at 6 the call stops and the
  counter is 0 again; with the counter at 4 a batch of two frames is returned and the
  counter is 6.
\<close>

theorem GroupReader_next_protocol_witness:
  "GroupReader_next draws0 (greader_b\<lparr>sample_used := 6\<rparr>) = StopIteration greader_b \<and>
   (\<exists>sample g'. GroupReader_next draws0 (greader_b\<lparr>sample_used := 4\<rparr>) = Batch sample g' \<and>
      map frames sample = [[[1], [2]], [[6], [7]]] \<and> sample_used g' = 6)"
proof -
  have t: "get_train_size (greader_b\<lparr>sample_used := 6\<rparr>) = 5" "get_train_size (greader_b\<lparr>sample_used := 4\<rparr>) = 5"
    by (simp_all add: get_train_size_def greader_b_def)
  have e: "greader_b\<lparr>sample_used := 6, sample_used := 0\<rparr> = greader_b" by (simp add: greader_b_def)
  have a: "GroupReader_next draws0 (greader_b\<lparr>sample_used := 6\<rparr>) = StopIteration greader_b"
    using GroupReader_next_protocol [of "greader_b\<lparr>sample_used := 6\<rparr>" draws0] t e by simp
  have s: "GroupReader_sample_train (dr_idx draws0) (dr_perm draws0) (greader_b\<lparr>sample_used := 4\<rparr>) =
       Inr ([\<lparr>fshape = [1], frames = [[1], [2]]\<rparr>, \<lparr>fshape = [1, 1], frames = [[6], [7]]\<rparr>],
            greader_b\<lparr>sample_used := 4,
              readers := [PlainR \<lparr>data_path = ''b'', batch_size = 2, c_filter = True, natm = 1, nproj = 1,
                    ndesc = 1, nframes = 5, data_ec = \<lparr>fshape = [1], frames = [[1], [2], [3], [4], [5]]\<rparr>,
                    data_dm = \<lparr>fshape = [1, 1], frames = [[6], [7], [8], [9], [10]]\<rparr>,
                    index_count_all = 2\<rparr>]\<rparr>)"
    by (simp add: GroupReader_sample_train_def greader_b_def draws0_def r_sample_train_def
        Reader_sample_train_def np_take_def np_arange_def ebind_def Let_def upto.simps)
  have g1: "group_batch (greader_b\<lparr>sample_used := 4\<rparr>) = 1" by (simp add: greader_b_def)
  have b: "\<exists>sample g'. GroupReader_next draws0 (greader_b\<lparr>sample_used := 4\<rparr>) = Batch sample g' \<and>
      map frames sample = [[[1], [2]], [[6], [7]]] \<and> sample_used g' = 6"
    using GroupReader_next_protocol [of "greader_b\<lparr>sample_used := 4\<rparr>" draws0] t g1
    unfolding s by simp
  from a b show ?thesis by blast
qed





lemma emap_Inr:
  assumes "\<forall>x\<in>set xs. f x = Inr (h x)"
  shows "emap f xs = Inr (map h xs)"
  using assms by (induction xs) (simp_all add: ebind_def)


































lemmas eval_init =
  GroupReader_init_def open_reader_def Reader_class_def new_reader_def
  Reader_init_def Reader_load_meta_def Reader_prepare_def np_reshape_col_def np_reshape_def blocks_def
  load_conv_def np_reshape_bool_def np_mask_def np_concatenate_last_def ebind_def Let_def
  get_nframes_def r_ndesc_def r_natm_def r_batch_size_def make_groups_def build_group_dict_def
  enumerate_eq_zip np_true_divide_def np_sum_def



lemmas eval_sample =
  sample_train_group_def r_sample_train_def Reader_sample_train_def Reader_sample_all_def
  np_take_def np_arange_def py_zip_star_def torch_cat_def ebind_def Let_def upto.simps
  choice_ok_def np_negative_def np_sum_def


lemma greader_bd_sample:
  "sample_train_group 1 [(0, [3, 1, 4, 0, 2]), (1, [1, 0])] greader_bd = Inl RuntimeError"
  by (simp add: eval_sample greader_bd_def reader_b_def reader_d_def)


























lemma blocks_length [simp]: "length (blocks n k xs) = n"
  by (simp add: blocks_def)

lemma blocks_append:
  assumes "length xs = k * c"
  shows "blocks (k + m) c (xs @ ys) = blocks k c xs @ blocks m c ys"
proof -
  have 1: "map (\<lambda>i. take c (drop (i * c) (xs @ ys))) [0..<k] = map (\<lambda>i. take c (drop (i * c) xs)) [0..<k]"
  proof (rule map_cong [OF refl])
    fix i assume "i \<in> set [0..<k]"
    then have "Suc i \<le> k" by simp
    then have "Suc i * c \<le> k * c" by (rule mult_le_mono1)
    then have "i * c + c \<le> length xs" using assms by simp
    then show "take c (drop (i * c) (xs @ ys)) = take c (drop (i * c) xs)" by simp
  qed
  have 2: "map (\<lambda>i. take c (drop (i * c) (xs @ ys))) [k..<k + m] = map (\<lambda>i. take c (drop (i * c) ys)) [0..<m]"
  proof -
    have "[k..<k + m] = map (\<lambda>i. i + k) [0..<m]"
      by (simp add: map_add_upt add.commute)
    moreover have "take c (drop ((i + k) * c) (xs @ ys)) = take c (drop (i * c) ys)" for i
      using assms by (simp add: add_mult_distrib)
    ultimately show ?thesis by (simp add: comp_def)
  qed
  have "[0..<k + m] = [0..<k] @ [k..<k + m]" using upt_add_eq_append [of 0 k m] by simp
  then show ?thesis unfolding blocks_def by (simp only: map_append 1 2)
qed

lemma blocks_concat:
  assumes "list_all (\<lambda>f. length f = k * c) fs"
  shows "blocks (length fs * k) c (concat fs) = concat (map (blocks k c) fs)"
  using assms
proof (induction fs)
  case Nil
  then show ?case by (simp add: blocks_def)
next
  case (Cons f fs)
  then have l: "length f = k * c" and r: "list_all (\<lambda>f. length f = k * c) fs" by simp_all
  have "blocks (length (f # fs) * k) c (concat (f # fs)) = blocks (k + length fs * k) c (f @ concat fs)"
    by simp
  also have "\<dots> = blocks k c f @ blocks (length fs * k) c (concat fs)"
    using blocks_append [OF l] by simp
  finally show ?case using Cons.IH [OF r] by simp
qed

lemma length_concat_const:
  assumes "list_all (\<lambda>f. length f = m) fs"
  shows "length (concat fs) = length fs * m"
  using assms by (induction fs) simp_all

lemma np_reshape_rows_wf:
  assumes "list_all (\<lambda>f. length f = k * c) (frames a)" "0 < c"
  shows "np_reshape_rows a c = Inr \<lparr>fshape = [c], frames = concat (map (blocks k c) (frames a))\<rparr>"
proof -
  have l: "length (concat (frames a)) = length (frames a) * k * c"
    using length_concat_const [OF assms(1)] by simp
  then have "length (concat (frames a)) mod c = 0" "length (concat (frames a)) div c = length (frames a) * k"
    using assms(2) by simp_all
  then show ?thesis
    using assms(2) blocks_concat [OF assms(1)] by (simp add: np_reshape_rows_def Let_def)
qed

lemma np_concatenate0_same:
  assumes "as \<noteq> []" "\<forall>x\<in>set as. fshape x = s"
  shows "np_concatenate0 as = Inr \<lparr>fshape = s, frames = concat (map frames as)\<rparr>"
proof -
  obtain a rest where e: "as = a # rest" using assms(1) by (cases as) auto
  have "list_all (\<lambda>x. fshape x = fshape a) as" using assms(2) e by (auto simp: list_all_iff)
  moreover have "fshape a = s" using assms(2) e by simp
  ultimately show ?thesis by (simp add: np_concatenate0_def e)
qed

lemma all_dm_pooled:
  assumes ne: "rds \<noteq> []" and wf: "\<forall>a\<in>set rds. data_wf a \<and> r_ndesc a = nd" and nd: "0 < nd"
  shows "ebind (emap (\<lambda>r. np_reshape_rows (r_data_dm r) (r_ndesc r)) rds) np_concatenate0
           = Inr \<lparr>fshape = [nd], frames = pooled_rows rds\<rparr>"
proof -
  have 1: "\<forall>a\<in>set rds. np_reshape_rows (r_data_dm a) (r_ndesc a) =
             Inr \<lparr>fshape = [nd], frames = concat (map (blocks (r_natm a) (r_ndesc a)) (frames (r_data_dm a)))\<rparr>"
  proof
    fix a assume "a \<in> set rds"
    with wf have "data_wf a" and n: "r_ndesc a = nd" by blast+
    then have w: "list_all (\<lambda>f. length f = r_natm a * r_ndesc a) (frames (r_data_dm a))"
      unfolding data_wf_def by blast
    from np_reshape_rows_wf [OF w] nd n
    show "np_reshape_rows (r_data_dm a) (r_ndesc a) =
             Inr \<lparr>fshape = [nd], frames = concat (map (blocks (r_natm a) (r_ndesc a)) (frames (r_data_dm a)))\<rparr>"
      by simp
  qed
  have 2: "np_concatenate0 (map (\<lambda>a. \<lparr>fshape = [nd],
               frames = concat (map (blocks (r_natm a) (r_ndesc a)) (frames (r_data_dm a)))\<rparr>) rds)
           = Inr \<lparr>fshape = [nd], frames = pooled_rows rds\<rparr>"
    using ne by (subst np_concatenate0_same [where s = "[nd]"]) (auto simp: pooled_rows_def comp_def)
  show ?thesis
    unfolding emap_Inr [OF 1] using 2 by (simp add: ebind_def)
qed

lemma blocks_row_length:
  assumes "length f = k * c" "row \<in> set (blocks k c f)"
  shows "length row = c"
proof -
  from assms(2) obtain i where i: "i < k" and r: "row = take c (drop (i * c) f)"
    by (auto simp: blocks_def)
  from i have "Suc i * c \<le> k * c" by (intro mult_le_mono1) simp
  then have "i * c + c \<le> length f" using assms(1) by simp
  then show ?thesis by (simp add: r)
qed

lemma pooled_rows_length:
  assumes "\<forall>a\<in>set rds. data_wf a \<and> r_ndesc a = nd" "row \<in> set (pooled_rows rds)"
  shows "length row = nd"
proof -
  from assms(2) obtain a f where a: "a \<in> set rds" and f: "f \<in> set (frames (r_data_dm a))"
    and r: "row \<in> set (blocks (r_natm a) (r_ndesc a) f)"
    by (auto simp: pooled_rows_def)
  from assms(1) a have "data_wf a" and n: "r_ndesc a = nd" by blast+
  then have "list_all (\<lambda>f. length f = r_natm a * r_ndesc a) (frames (r_data_dm a))"
    unfolding data_wf_def by blast
  with f have "length f = r_natm a * r_ndesc a" by (simp add: list_all_iff)
  from blocks_row_length [OF this r] n show ?thesis by simp
qed

lemma cumsum_from_length [simp]: "length (cumsum_from a xs) = length xs"
  by (induction xs arbitrary: a) simp_all

lemma split_at_length [simp]: "length (split_at lo idxs xs) = Suc (length idxs)"
  by (induction idxs arbitrary: lo) simp_all

lemma split_sections:
  assumes "secs \<noteq> []" "length row = lo + sum_list secs"
  shows "split_at lo (butlast (cumsum_from lo secs)) row =
           map (\<lambda>i. take (secs ! i) (drop (lo + sum_list (take i secs)) row)) [0..<length secs]"
  using assms
proof (induction secs arbitrary: lo)
  case Nil
  then show ?case by simp
next
  case (Cons s rest)
  show ?case
  proof (cases rest)
    case Nil
    with Cons.prems show ?thesis by simp
  next
    case (Cons s' rest')
    then have ne: "rest \<noteq> []" by simp
    have l: "length row = (lo + s) + sum_list rest" using Cons.prems by simp
    have c: "cumsum_from (lo + s) rest \<noteq> []" using ne by (cases rest) simp_all
    have "split_at lo (butlast (cumsum_from lo (s # rest))) row =
            take s (drop lo row) # split_at (lo + s) (butlast (cumsum_from (lo + s) rest)) row"
      using c by simp
    also have "\<dots> = take s (drop lo row) #
            map (\<lambda>i. take (rest ! i) (drop ((lo + s) + sum_list (take i rest)) row)) [0..<length rest]"
      using Cons.IH [OF ne l] by simp
    also have "\<dots> = map (\<lambda>i. take ((s # rest) ! i) (drop (lo + sum_list (take i (s # rest))) row))
                        [0..<length (s # rest)]"
      by (simp add: upt_conv_Cons map_Suc_upt [symmetric] add.assoc del: upt_Suc)
    finally show ?thesis .
  qed
qed

lemma expand_length:
  assumes "length ds = length secs"
  shows "length (concat (map (\<lambda>(d, s). replicate s (f d)) (zip ds secs))) = sum_list secs"
  using assms by (induction ds secs rule: list_induct2) simp_all

lemma expand_nth:
  assumes "length ds = length secs" "i < length secs" "k < secs ! i"
  shows "concat (map (\<lambda>(d, s). replicate s (f d)) (zip ds secs)) ! (sum_list (take i secs) + k) = f (ds ! i)"
  using assms
proof (induction ds secs arbitrary: i rule: list_induct2)
  case Nil
  then show ?case by simp
next
  case (Cons d ds s secs)
  show ?case
  proof (cases i)
    case 0
    with Cons.prems show ?thesis by (simp add: nth_append)
  next
    case (Suc j)
    with Cons.prems have j: "j < length secs" "k < secs ! j" by simp_all
    from Cons.IH [OF j] show ?thesis
      by (simp add: Suc nth_append add.assoc)
  qed
qed

lemma ebind_assoc: "ebind (ebind m f) h = ebind m (\<lambda>x. ebind (f x) h)"
  by (cases m) (simp_all add: ebind_def)

lemma compute_data_stat_pooled:
  assumes ne: "readers g \<noteq> []" and wf: "\<forall>a\<in>set (readers g). data_wf a \<and> r_ndesc a = nd"
      and nd: "0 < nd"
  shows "compute_data_stat g None =
           Inr (map (\<lambda>j. np_mean (map (\<lambda>row. row ! j) (pooled_rows (readers g)))) [0..<nd],
                map (\<lambda>j. np_std (map (\<lambda>row. row ! j) (pooled_rows (readers g)))) [0..<nd])"
    and "sum_list secs \<noteq> nd \<Longrightarrow> compute_data_stat g (Some secs) = Inl AssertionError"
    and "sum_list secs = nd \<Longrightarrow> compute_data_stat g (Some secs) =
           Inr (concat (map (\<lambda>(d, s). replicate s (np_mean (concat d)))
                  (zip (map (\<lambda>k. map (\<lambda>row. take (secs ! k) (drop (sec_offset secs k) row))
                                 (pooled_rows (readers g))) [0..<length secs]) secs)),
                concat (map (\<lambda>(d, s). replicate s (np_std (concat d)))
                  (zip (map (\<lambda>k. map (\<lambda>row. take (secs ! k) (drop (sec_offset secs k) row))
                                 (pooled_rows (readers g))) [0..<length secs]) secs)))"
proof -
  define rows where "rows = pooled_rows (readers g)"
  define A where "A = \<lparr>fshape = [nd], frames = rows\<rparr>"
  have pre: "ebind (emap (\<lambda>r. np_reshape_rows (r_data_dm r) (r_ndesc r)) (readers g)) np_concatenate0 = Inr A"
    using all_dm_pooled [OF ne wf nd] by (simp add: A_def rows_def)
  have cds: "compute_data_stat g symm =
     (case symm of
         None \<Rightarrow> Inr (np_mean0 A, np_std0 A)
       | Some secs \<Rightarrow>
           if sum_list secs \<noteq> last (fshape A) then Inl AssertionError
           else
             let dm_shells = np_split_last (frames A) (butlast (np_cumsum secs));
                 mean_shells = map (\<lambda>(d, s). replicate s (np_mean (concat d))) (zip dm_shells secs);
                 std_shells = map (\<lambda>(d, s). replicate s (np_std (concat d))) (zip dm_shells secs)
             in ebind (np_concatenate1 mean_shells) (\<lambda>all_mean.
                ebind (np_concatenate1 std_shells) (\<lambda>all_std.
                  Inr (all_mean, all_std))))" for symm
  proof -
    have "compute_data_stat g symm =
            ebind (ebind (emap (\<lambda>r. np_reshape_rows (r_data_dm r) (r_ndesc r)) (readers g)) np_concatenate0)
              (\<lambda>all_dm. case symm of
         None \<Rightarrow> Inr (np_mean0 all_dm, np_std0 all_dm)
       | Some secs \<Rightarrow>
           if sum_list secs \<noteq> last (fshape all_dm) then Inl AssertionError
           else
             let dm_shells = np_split_last (frames all_dm) (butlast (np_cumsum secs));
                 mean_shells = map (\<lambda>(d, s). replicate s (np_mean (concat d))) (zip dm_shells secs);
                 std_shells = map (\<lambda>(d, s). replicate s (np_std (concat d))) (zip dm_shells secs)
             in ebind (np_concatenate1 mean_shells) (\<lambda>all_mean.
                ebind (np_concatenate1 std_shells) (\<lambda>all_std.
                  Inr (all_mean, all_std))))"
      unfolding compute_data_stat_def ebind_assoc ..
    then show ?thesis unfolding pre by (simp add: ebind_def)
  qed
  show "compute_data_stat g None =
           Inr (map (\<lambda>j. np_mean (map (\<lambda>row. row ! j) (pooled_rows (readers g)))) [0..<nd],
                map (\<lambda>j. np_std (map (\<lambda>row. row ! j) (pooled_rows (readers g)))) [0..<nd])"
    by (simp add: cds A_def rows_def np_mean0_def np_std0_def)
  show "compute_data_stat g (Some secs) = Inl AssertionError" if "sum_list secs \<noteq> nd"
    using that by (simp add: cds A_def)
  show "compute_data_stat g (Some secs) =
           Inr (concat (map (\<lambda>(d, s). replicate s (np_mean (concat d)))
                  (zip (map (\<lambda>k. map (\<lambda>row. take (secs ! k) (drop (sec_offset secs k) row))
                                 (pooled_rows (readers g))) [0..<length secs]) secs)),
                concat (map (\<lambda>(d, s). replicate s (np_std (concat d)))
                  (zip (map (\<lambda>k. map (\<lambda>row. take (secs ! k) (drop (sec_offset secs k) row))
                                 (pooled_rows (readers g))) [0..<length secs]) secs)))"
    if s: "sum_list secs = nd"
  proof -
    from s nd have sne: "secs \<noteq> []" by auto
    have li: "Suc (length (butlast (np_cumsum secs))) = length secs"
      using sne by (simp add: np_cumsum_def)
    have sp: "split_at 0 (butlast (np_cumsum secs)) row =
                map (\<lambda>i. take (secs ! i) (drop (sec_offset secs i) row)) [0..<length secs]"
      if "row \<in> set rows" for row
    proof -
      from that have "length row = 0 + sum_list secs"
        using pooled_rows_length [OF wf] s by (simp add: rows_def)
      from split_sections [OF sne this] show ?thesis
        by (simp add: np_cumsum_def sec_offset_def)
    qed
    have sh: "np_split_last rows (butlast (np_cumsum secs)) =
                map (\<lambda>k. map (\<lambda>row. take (secs ! k) (drop (sec_offset secs k) row)) rows) [0..<length secs]"
      unfolding np_split_last_def li
      by (intro map_cong refl) (simp add: sp)
    define shells where
      "shells = map (\<lambda>k. map (\<lambda>row. take (secs ! k) (drop (sec_offset secs k) row)) rows) [0..<length secs]"
    have z: "zip shells secs \<noteq> []" using sne by (cases secs) (simp_all add: shells_def upt_conv_Cons del: upt_Suc)
    show ?thesis
      using s z
      by (simp add: cds A_def sh np_concatenate1_def ebind_def Let_def shells_def [symmetric] rows_def [symmetric])
  qed
qed

lemma blocks_all_length:
  assumes "length xs = n * k"
  shows "list_all (\<lambda>f. length f = k) (blocks n k xs)"
  using blocks_row_length [OF assms] by (auto simp: list_all_iff)

lemma np_mask_all:
  assumes "np_mask a conv = Inr b" "list_all P (frames a)"
  shows "list_all P (frames b)"
proof -
  from assms(1) have fr: "frames b = map fst (filter snd (zip (frames a) conv))"
    by (auto simp: np_mask_def split: if_splits)
  have "\<forall>x\<in>set (frames b). x \<in> set (frames a)"
    unfolding fr by (auto dest: set_zip_leftD)
  then show ?thesis using assms(2) by (simp add: list_all_iff)
qed

lemma np_reshape_wf:
  assumes "np_reshape n dims flat = Inr a"
  shows "fshape a = dims \<and> list_all (\<lambda>f. length f = prod_list dims) (frames a) \<and> length (frames a) = n"
  using assms blocks_all_length [of flat n "prod_list dims"]
  by (auto simp: np_reshape_def split: if_splits)

lemma emap_reshape_wf:
  "emap (\<lambda>d. np_reshape n dims (snd d)) xs = Inr ds \<Longrightarrow>
   \<forall>d\<in>set ds. fshape d = dims \<and> list_all (\<lambda>f. length f = prod_list dims) (frames d) \<and> length (frames d) = n"
proof (induction xs arbitrary: ds)
  case Nil
  then show ?case by simp
next
  case (Cons x xs)
  then show ?case
    by (auto dest!: ebind_Inr np_reshape_wf)
qed

lemma length_concat_map_const:
  assumes "\<forall>x\<in>set xs. length (f x) = m"
  shows "length (concat (map f xs)) = length xs * m"
  using assms by (induction xs) simp_all

lemma np_concatenate_last_wf:
  assumes c: "np_concatenate_last ds = Inr dm"
      and w: "\<forall>d\<in>set ds. fshape d = [na, np] \<and> list_all (\<lambda>f. length f = na * np) (frames d) \<and>
                length (frames d) = n"
  shows "fshape dm = [na, length ds * np] \<and>
         list_all (\<lambda>f. length f = na * (length ds * np)) (frames dm) \<and> length (frames dm) = n"
proof -
  from c obtain d rest where e: "ds = d # rest" by (cases ds) (auto simp: np_concatenate_last_def)
  from w e have d: "fshape d = [na, np]" "length (frames d) = n" by auto
  have sm: "sum_list (map (\<lambda>x. last (fshape x)) ds) = length ds * np"
    using w by (induction ds) auto
  have dm: "dm = \<lparr>fshape = [na, length ds * np],
                  frames = map (\<lambda>f. concat (map (\<lambda>a. concat (map (\<lambda>x.
                                 take (last (fshape x)) (drop (a * last (fshape x)) (frames x ! f))) ds))
                               [0..<na])) [0..<n]\<rparr>"
    using c d sm unfolding np_concatenate_last_def e [symmetric]
    by (auto simp: e split: if_splits)
  have piece: "length (take (last (fshape x)) (drop (a * last (fshape x)) (frames x ! f))) = np"
    if "x \<in> set ds" "a < na" "f < n" for x a f
  proof -
    from w that have fx: "fshape x = [na, np]" and l: "length (frames x ! f) = na * np"
      by (auto simp: list_all_length)
    from that(2) have "Suc a * np \<le> na * np" by (intro mult_le_mono1) simp
    then have "a * np + np \<le> length (frames x ! f)" using l by simp
    then show ?thesis by (simp add: fx)
  qed
  have row: "length (concat (map (\<lambda>x. take (last (fshape x)) (drop (a * last (fshape x)) (frames x ! f))) ds))
               = length ds * np" if "a < na" "f < n" for a f
    using piece that by (intro length_concat_map_const) auto
  have fr: "length (concat (map (\<lambda>a. concat (map (\<lambda>x.
                 take (last (fshape x)) (drop (a * last (fshape x)) (frames x ! f))) ds)) [0..<na]))
             = na * (length ds * np)" if "f < n" for f
  proof (rule trans [OF length_concat_map_const [where m = "length ds * np"]])
    show "\<forall>a\<in>set [0..<na]. length (concat (map (\<lambda>x.
                 take (last (fshape x)) (drop (a * last (fshape x)) (frames x ! f))) ds)) = length ds * np"
      using row that by simp
    show "length [0..<na] * (length ds * np) = na * (length ds * np)" by simp
  qed
  show ?thesis
    using fr by (simp add: dm list_all_iff)
qed

lemma np_reshape_col_wf:
  "fshape (np_reshape_col e) = [1] \<and> list_all (\<lambda>f. length f = 1) (frames (np_reshape_col e))"
  by (simp add: np_reshape_col_def list_all_iff)

lemma Reader_prepare_data_wf:
  assumes "Reader_prepare path rs bs cf na np = Inr (r, l)"
  shows "data_wf (PlainR r)"
proof -
  define n where "n = length (frames (np_reshape_col (rs_e rs)))"
  from assms obtain ds dm conv ec dmc where
    1: "emap (\<lambda>d. np_reshape n [na, np] (snd d)) (rs_d rs) = Inr ds"
    and 2: "np_concatenate_last ds = Inr dm"
    and 3: "np_mask (np_reshape_col (rs_e rs)) conv = Inr ec" "np_mask dm conv = Inr dmc"
    and 4: "data_dm r = dmc" "data_ec r = ec" "natm r = na" "ndesc r = last (fshape dmc)"
    unfolding Reader_prepare_def Let_def n_def
    by (auto dest!: ebind_Inr split: if_splits)
  have w: "\<forall>d\<in>set ds. fshape d = [na, np] \<and> list_all (\<lambda>f. length f = na * np) (frames d) \<and>
                length (frames d) = n"
    using emap_reshape_wf [OF 1] by simp
  note c = np_concatenate_last_wf [OF 2 w]
  note m1 = np_mask_frames [OF 3(1)] np_mask_frames [OF 3(2)]
  have a: "list_all (\<lambda>f. length f = na * (length ds * np)) (frames dmc)"
    using np_mask_all [OF 3(2)] c by blast
  have b: "list_all (\<lambda>f. length f = 1) (frames ec)"
    using np_mask_all [OF 3(1)] np_reshape_col_wf by blast
  show ?thesis
    using a b c m1 4 np_reshape_col_wf [of "rs_e rs"]
    by (simp add: data_wf_def r_data_dm_def r_data_ec_def r_natm_def r_ndesc_def)
qed

lemma ForceReader_prepare_data_wf:
  assumes "ForceReader_prepare path rs bs cf na np = Inr (r, l)"
  shows "data_wf (ForceR r)"
proof -
  define n where "n = length (frames (np_reshape_col (rs_e rs)))"
  from assms obtain d :: "nat list \<times> real list" and dm conv ec dmc where
    1: "np_reshape n [na, np] (snd d) = Inr dm"
    and 3: "np_mask (np_reshape_col (rs_e rs)) conv = Inr ec" "np_mask dm conv = Inr dmc"
    and 4: "data_dm r = dmc" "data_ec r = ec" "natm r = na" "ndesc r = np"
    unfolding ForceReader_prepare_def Let_def n_def
    by (auto dest!: ebind_Inr split: if_splits)
  note c = np_reshape_wf [OF 1]
  note m1 = np_mask_frames [OF 3(1)] np_mask_frames [OF 3(2)]
  have a: "list_all (\<lambda>f. length f = prod_list [na, np]) (frames dmc)"
    using np_mask_all [OF 3(2)] c by blast
  have b: "list_all (\<lambda>f. length f = 1) (frames ec)"
    using np_mask_all [OF 3(1)] np_reshape_col_wf by blast
  show ?thesis
    using a b c m1 4 np_reshape_col_wf [of "rs_e rs"]
    by (simp add: data_wf_def r_data_dm_def r_data_ec_def r_natm_def r_ndesc_def)
qed

lemma OrbitalReader_prepare_data_wf:
  assumes "OrbitalReader_prepare path rs bs cf na np = Inr (r, l)"
  shows "data_wf (OrbitalR r)"
proof -
  define n where "n = length (frames (np_reshape_col (rs_e rs)))"
  from assms obtain d :: "nat list \<times> real list" and dm conv ec dmc where
    1: "np_reshape n [na, np] (snd d) = Inr dm"
    and 3: "np_mask (np_reshape_col (rs_e rs)) conv = Inr ec" "np_mask dm conv = Inr dmc"
    and 4: "data_dm r = dmc" "data_ec r = ec" "natm r = na" "ndesc r = np"
    unfolding OrbitalReader_prepare_def Let_def n_def
    by (auto dest!: ebind_Inr split: if_splits)
  note c = np_reshape_wf [OF 1]
  note m1 = np_mask_frames [OF 3(1)] np_mask_frames [OF 3(2)]
  have a: "list_all (\<lambda>f. length f = prod_list [na, np]) (frames dmc)"
    using np_mask_all [OF 3(2)] c by blast
  have b: "list_all (\<lambda>f. length f = 1) (frames ec)"
    using np_mask_all [OF 3(1)] np_reshape_col_wf by blast
  show ?thesis
    using a b c m1 4 np_reshape_col_wf [of "rs_e rs"]
    by (simp add: data_wf_def r_data_dm_def r_data_ec_def r_natm_def r_ndesc_def)
qed

lemma new_reader_data_wf:
  assumes "new_reader cls path rs bs cf = Inr (a, l)"
  shows "data_wf a"
proof (cases cls)
  case ReaderC
  with assms obtain r na np l2 where a: "a = PlainR r" and p: "Reader_prepare path rs bs cf na np = Inr (r, l2)"
    by (auto simp: new_reader_def Reader_init_def dest!: ebind_Inr)
  from Reader_prepare_data_wf [OF p] show ?thesis by (simp add: a)
next
  case ForceReaderC
  with assms obtain r na np l2 where a: "a = ForceR r" and p: "ForceReader_prepare path rs bs cf na np = Inr (r, l2)"
    by (auto simp: new_reader_def ForceReader_init_def dest!: ebind_Inr)
  from ForceReader_prepare_data_wf [OF p] show ?thesis by (simp add: a)
next
  case OrbitalReaderC
  with assms obtain r na np l2 where a: "a = OrbitalR r" and p: "OrbitalReader_prepare path rs bs cf na np = Inr (r, l2)"
    by (auto simp: new_reader_def OrbitalReader_init_def dest!: ebind_Inr)
  from OrbitalReader_prepare_data_wf [OF p] show ?thesis by (simp add: a)
qed

lemma GroupReader_init_data_wf:
  assumes "GroupReader_init fs paths bs gb w_force w_orb cf = Inr (g, l)"
  shows "readers g \<noteq> [] \<and> (\<forall>a\<in>set (readers g). data_wf a)"
proof -
  have lr: "load_readers mk pl = Inr (rds, lg) \<Longrightarrow> \<forall>a\<in>set rds. \<exists>p l'. mk p = Inr (a, l')"
    for mk pl rds lg
  proof (induction pl arbitrary: rds lg)
    case Nil
    then show ?case by simp
  next
    case (Cons p pl)
    then show ?case
      by (auto dest!: ebind_Inr split: if_splits) blast+
  qed
  from assms obtain rds where
    1: "load_readers (open_reader fs (Reader_class w_orb w_force) bs cf)
          (case paths of PathStr p \<Rightarrow> [p] | PathList ps \<Rightarrow> ps) = Inr (rds, l)"
    and 2: "rds \<noteq> []" "readers g = rds"
    unfolding GroupReader_init_def Let_def
    by (auto dest!: ebind_Inr split: list.splits)
  have "data_wf a" if "a \<in> set rds" for a
  proof -
    from lr [OF 1] that obtain p l' where "open_reader fs (Reader_class w_orb w_force) bs cf p = Inr (a, l')"
      by blast
    then obtain rs where "new_reader (Reader_class w_orb w_force) p rs bs cf = Inr (a, l')"
      by (auto simp: open_reader_def split: option.splits)
    from new_reader_data_wf [OF this] show ?thesis .
  qed
  with 2 show ?thesis by simp
qed

lemma greader_e_init:
  "GroupReader_init fs_e (PathStr ''e'') 2 1 False False True = Inr (greader_e, [])"
  by (simp add: eval_init fs_e_def raw_e_def greader_e_def reader_e_def)

text \<open>
  C4 (normalization statistics). Let the group reader have a reader, let the data of
  every reader be shaped as \<open>prepare\<close> shapes them, and let all readers have the same
  channel width \<open>nd > 0\<close>. The pool is the descriptor of all readers flattened to rows of
  \<open>nd\<close> channels, one row for every atom of every frame. Without sections
  \<open>compute_data_stat\<close> returns two vectors of length \<open>nd\<close>: the mean and the standard
  deviation of every column of the pool. With sections that sum to \<open>nd\<close> it returns two
  vectors of length \<open>nd\<close> whose entries in the channels of a section are all the mean and
  the standard deviation of all entries of the pool in these channels, so they are equal
  within a section. With sections that do not sum to \<open>nd\<close> the assertion fails. The
  values are stated for a pool with a row, where numpy does not return \<open>nan\<close>.
\<close>

theorem compute_data_stat_sections:
  assumes ne: "readers g \<noteq> []"
      and wf: "\<forall>a\<in>set (readers g). data_wf a \<and> r_ndesc a = nd"
      and nd: "0 < nd"
  shows "(\<exists>m s. compute_data_stat g None = Inr (m, s) \<and> length m = nd \<and> length s = nd \<and>
            (pooled_rows (readers g) \<noteq> [] \<longrightarrow>
               (\<forall>j<nd. m ! j = np_mean (map (\<lambda>row. row ! j) (pooled_rows (readers g))) \<and>
                       s ! j = np_std (map (\<lambda>row. row ! j) (pooled_rows (readers g)))))) \<and>
         (sum_list secs = nd \<longrightarrow>
            (\<exists>m s. compute_data_stat g (Some secs) = Inr (m, s) \<and> length m = nd \<and> length s = nd \<and>
               (pooled_rows (readers g) \<noteq> [] \<longrightarrow>
                  (\<forall>i<length secs. \<forall>k<secs ! i.
                      m ! (sec_offset secs i + k) =
                        np_mean (section_pool (pooled_rows (readers g)) (sec_offset secs i) (secs ! i)) \<and>
                      s ! (sec_offset secs i + k) =
                        np_std (section_pool (pooled_rows (readers g)) (sec_offset secs i) (secs ! i)) \<and>
                      m ! (sec_offset secs i + k) = m ! sec_offset secs i \<and>
                      s ! (sec_offset secs i + k) = s ! sec_offset secs i)))) \<and>
         (sum_list secs \<noteq> nd \<longrightarrow> compute_data_stat g (Some secs) = Inl AssertionError)"
proof -
  note c = compute_data_stat_pooled [OF ne wf nd]
  have 1: "\<exists>m s. compute_data_stat g None = Inr (m, s) \<and> length m = nd \<and> length s = nd \<and>
            (pooled_rows (readers g) \<noteq> [] \<longrightarrow>
               (\<forall>j<nd. m ! j = np_mean (map (\<lambda>row. row ! j) (pooled_rows (readers g))) \<and>
                       s ! j = np_std (map (\<lambda>row. row ! j) (pooled_rows (readers g)))))"
    unfolding c(1) by simp
  have 2: "\<exists>m s. compute_data_stat g (Some secs) = Inr (m, s) \<and> length m = nd \<and> length s = nd \<and>
               (pooled_rows (readers g) \<noteq> [] \<longrightarrow>
                  (\<forall>i<length secs. \<forall>k<secs ! i.
                      m ! (sec_offset secs i + k) =
                        np_mean (section_pool (pooled_rows (readers g)) (sec_offset secs i) (secs ! i)) \<and>
                      s ! (sec_offset secs i + k) =
                        np_std (section_pool (pooled_rows (readers g)) (sec_offset secs i) (secs ! i)) \<and>
                      m ! (sec_offset secs i + k) = m ! sec_offset secs i \<and>
                      s ! (sec_offset secs i + k) = s ! sec_offset secs i))"
    if s: "sum_list secs = nd"
  proof -
    define shells where
      "shells = map (\<lambda>k. map (\<lambda>row. take (secs ! k) (drop (sec_offset secs k) row))
                            (pooled_rows (readers g))) [0..<length secs]"
    define m where "m = concat (map (\<lambda>(d, s). replicate s (np_mean (concat d))) (zip shells secs))"
    define sd where "sd = concat (map (\<lambda>(d, s). replicate s (np_std (concat d))) (zip shells secs))"
    have r: "compute_data_stat g (Some secs) = Inr (m, sd)"
      using c(3) [OF s] by (simp add: m_def sd_def shells_def)
    have ls: "length shells = length secs" by (simp add: shells_def)
    have lm: "length m = nd" "length sd = nd"
      using expand_length [OF ls] s by (simp_all add: m_def sd_def)
    have v: "m ! (sec_offset secs i + k) =
               np_mean (section_pool (pooled_rows (readers g)) (sec_offset secs i) (secs ! i))"
            "sd ! (sec_offset secs i + k) =
               np_std (section_pool (pooled_rows (readers g)) (sec_offset secs i) (secs ! i))"
      if "i < length secs" "k < secs ! i" for i k
      using expand_nth [OF ls that, of "\<lambda>d. np_mean (concat d)"]
            expand_nth [OF ls that, of "\<lambda>d. np_std (concat d)"] that(1)
      by (simp_all add: m_def sd_def sec_offset_def shells_def section_pool_def)
    have "\<forall>i<length secs. \<forall>k<secs ! i.
                      m ! (sec_offset secs i + k) =
                        np_mean (section_pool (pooled_rows (readers g)) (sec_offset secs i) (secs ! i)) \<and>
                      sd ! (sec_offset secs i + k) =
                        np_std (section_pool (pooled_rows (readers g)) (sec_offset secs i) (secs ! i)) \<and>
                      m ! (sec_offset secs i + k) = m ! sec_offset secs i \<and>
                      sd ! (sec_offset secs i + k) = sd ! sec_offset secs i"
    proof (intro allI impI)
      fix i k assume i: "i < length secs" and k: "k < secs ! i"
      then have z: "0 < secs ! i" by simp
      show "m ! (sec_offset secs i + k) =
                        np_mean (section_pool (pooled_rows (readers g)) (sec_offset secs i) (secs ! i)) \<and>
                      sd ! (sec_offset secs i + k) =
                        np_std (section_pool (pooled_rows (readers g)) (sec_offset secs i) (secs ! i)) \<and>
                      m ! (sec_offset secs i + k) = m ! sec_offset secs i \<and>
                      sd ! (sec_offset secs i + k) = sd ! sec_offset secs i"
        using v [OF i k] v [OF i z] by simp
    qed
    with r lm show ?thesis by blast
  qed
  have 3: "compute_data_stat g (Some secs) = Inl AssertionError" if "sum_list secs \<noteq> nd"
    using c(2) [OF that] .
  from 1 2 3 show ?thesis by blast
qed

text \<open>
  The example of the specification: sections \<open>[2, 3]\<close> over five channels give vectors of
  length 5 whose first two entries are equal, and whose last three are.
\<close>

theorem compute_data_stat_sections_witness:
  "\<exists>m s. compute_data_stat greader_e (Some [2, 3]) = Inr (m, s) \<and> length m = 5 \<and> length s = 5 \<and>
      m ! 0 = 4 \<and> m ! 1 = 4 \<and> m ! 2 = 13 / 2 \<and> m ! 3 = 13 / 2 \<and> m ! 4 = 13 / 2 \<and>
      s ! 1 = s ! 0 \<and> s ! 3 = s ! 2 \<and> s ! 4 = s ! 2"
proof -
  have ne: "readers greader_e \<noteq> []" by (simp add: greader_e_def)
  have wf: "\<forall>a\<in>set (readers greader_e). data_wf a \<and> r_ndesc a = 5"
    by (simp add: greader_e_def reader_e_def data_wf_def r_data_dm_def r_data_ec_def r_natm_def r_ndesc_def)
  have pr: "pooled_rows (readers greader_e) = [[1, 2, 3, 4, 5], [6, 7, 8, 9, 10]]"
    by (simp add: pooled_rows_def greader_e_def reader_e_def r_data_dm_def r_natm_def r_ndesc_def blocks_def)
  have sm: "sum_list [2, 3] = (5::nat)" by simp
  from compute_data_stat_sections [OF ne wf, of "[2, 3]"] sm pr
  obtain m s where r: "compute_data_stat greader_e (Some [2, 3]) = Inr (m, s)"
    and l: "length m = 5" "length s = 5"
    and v: "\<forall>i<length [2, 3::nat]. \<forall>k<[2, 3] ! i.
                      m ! (sec_offset [2, 3] i + k) =
                        np_mean (section_pool [[1, 2, 3, 4, 5], [6, 7, 8, 9, 10]] (sec_offset [2, 3] i) ([2, 3] ! i)) \<and>
                      s ! (sec_offset [2, 3] i + k) =
                        np_std (section_pool [[1, 2, 3, 4, 5], [6, 7, 8, 9, 10]] (sec_offset [2, 3] i) ([2, 3] ! i)) \<and>
                      m ! (sec_offset [2, 3] i + k) = m ! sec_offset [2, 3] i \<and>
                      s ! (sec_offset [2, 3] i + k) = s ! sec_offset [2, 3] i"
    by auto
  have o: "sec_offset [2, 3] 0 = 0" "sec_offset [2, 3] (Suc 0) = 2" by (simp_all add: sec_offset_def)
  have p0: "np_mean (section_pool [[1, 2, 3, 4, 5], [6, 7, 8, 9, 10]] 0 2) = 4"
    by (simp add: np_mean_def section_pool_def)
  have p1: "np_mean (section_pool [[1, 2, 3, 4, 5], [6, 7, 8, 9, 10]] 2 3) = 13 / 2"
    by (simp add: np_mean_def section_pool_def)
  note a0 = v [rule_format, of 0 0] and a1 = v [rule_format, of 0 1]
    and b0 = v [rule_format, of 1 0] and b1 = v [rule_format, of 1 1] and b2 = v [rule_format, of 1 2]
  have "m ! 0 = 4 \<and> m ! 1 = 4 \<and> m ! 2 = 13 / 2 \<and> m ! 3 = 13 / 2 \<and> m ! 4 = 13 / 2 \<and>
      s ! 1 = s ! 0 \<and> s ! 3 = s ! 2 \<and> s ! 4 = s ! 2"
    using a0 a1 b0 b1 b2 by (simp add: o p0 p1)
  with r l show ?thesis by (intro exI [of _ m] exI [of _ s]) simp
qed

lemma blocks_nth:
  assumes "k < na" "j < nd" "length f = na * nd"
  shows "blocks na nd f ! k ! j = f ! (k * nd + j)"
proof -
  from assms(1) have "Suc k * nd \<le> na * nd" by (intro mult_le_mono1) simp
  then have "k * nd + nd \<le> length f" using assms(3) by simp
  then show ?thesis using assms(1,2) by (simp add: blocks_def)
qed

lemma bcast_same: "length v = c \<Longrightarrow> bcast c v = v"
  by (simp add: bcast_def)

lemma normalized_frame:
  assumes f: "length f = na * nd" and sh: "length sh = nd" and sc: "length sc = nd"
  shows "(let rows = blocks na nd f;
              rows1 = map (\<lambda>row. map2 (-) (bcast nd row) (bcast nd sh)) rows;
              rows2 = map (\<lambda>row. map2 (/) (bcast nd row) (bcast nd sc)) rows1
          in map (\<lambda>j. sum_list (map (\<lambda>row. row ! j) rows2)) [0..<nd])
         = feature na nd sh sc f"
proof -
  have row: "map2 (/) (bcast nd (map2 (-) (bcast nd (blocks na nd f ! k)) (bcast nd sh))) (bcast nd sc) ! j
               = (f ! (k * nd + j) - sh ! j) / sc ! j" if "k < na" "j < nd" for k j
  proof -
    have l: "length (blocks na nd f ! k) = nd"
      using blocks_row_length [OF f, of "blocks na nd f ! k"] that(1) by simp
    have l1: "length (map2 (-) (blocks na nd f ! k) sh) = nd" using l sh by simp
    show ?thesis
      using that l sh sc blocks_nth [OF that f]
      by (simp add: bcast_same [OF l] bcast_same [OF sh] bcast_same [OF sc] bcast_same [OF l1])
  qed
  have "map (\<lambda>row. row ! j)
          (map (\<lambda>row. map2 (/) (bcast nd row) (bcast nd sc))
             (map (\<lambda>row. map2 (-) (bcast nd row) (bcast nd sh)) (blocks na nd f)))
        = map (\<lambda>k. (f ! (k * nd + j) - sh ! j) / sc ! j) [0..<na]" if "j < nd" for j
  proof (rule nth_equalityI)
    show "length (map (\<lambda>row. row ! j)
          (map (\<lambda>row. map2 (/) (bcast nd row) (bcast nd sc))
             (map (\<lambda>row. map2 (-) (bcast nd row) (bcast nd sh)) (blocks na nd f))))
        = length (map (\<lambda>k. (f ! (k * nd + j) - sh ! j) / sc ! j) [0..<na])" by simp
  next
    fix k assume "k < length (map (\<lambda>row. row ! j)
          (map (\<lambda>row. map2 (/) (bcast nd row) (bcast nd sc))
             (map (\<lambda>row. map2 (-) (bcast nd row) (bcast nd sh)) (blocks na nd f))))"
    then have k: "k < na" by simp
    show "map (\<lambda>row. row ! j)
          (map (\<lambda>row. map2 (/) (bcast nd row) (bcast nd sc))
             (map (\<lambda>row. map2 (-) (bcast nd row) (bcast nd sh)) (blocks na nd f))) ! k
        = map (\<lambda>k. (f ! (k * nd + j) - sh ! j) / sc ! j) [0..<na] ! k"
      using k row [OF k that] by simp
  qed
  then show ?thesis
    unfolding Let_def feature_def by (intro map_cong refl) simp
qed

lemma normalized_sum_feature:
  assumes wf: "data_wf a" and nd: "r_ndesc a = nd" and sh: "length sh = nd" and sc: "length sc = nd"
  shows "normalized_sum (r_data_dm a) sh sc =
           Inr \<lparr>fshape = [nd], frames = map (feature (r_natm a) nd sh sc) (frames (r_data_dm a))\<rparr>"
proof -
  from wf nd have fs: "fshape (r_data_dm a) = [r_natm a, nd]"
    and fr: "list_all (\<lambda>f. length f = r_natm a * nd) (frames (r_data_dm a))"
    unfolding data_wf_def by auto
  have "map (\<lambda>frame.
                     let rows = blocks (r_natm a) nd frame;
                         rows1 = map (\<lambda>row. map2 (-) (bcast nd row) (bcast nd sh)) rows;
                         rows2 = map (\<lambda>row. map2 (/) (bcast nd row) (bcast nd sc)) rows1
                     in map (\<lambda>j. sum_list (map (\<lambda>row. row ! j) rows2)) [0..<nd]) (frames (r_data_dm a))
        = map (feature (r_natm a) nd sh sc) (frames (r_data_dm a))"
    using fr by (intro map_cong refl normalized_frame [OF _ sh sc]) (simp add: list_all_iff)
  then show ?thesis
    by (simp add: normalized_sum_def fs np_broadcast_dim_def sh sc ebind_def)
qed

lemma all_sdm_features:
  assumes ne: "rds \<noteq> []" and wf: "\<forall>a\<in>set rds. data_wf a \<and> r_ndesc a = nd"
      and sh: "length sh = nd" and sc: "length sc = nd"
  shows "emap (\<lambda>r. normalized_sum (r_data_dm r) sh sc) rds =
           Inr (map (\<lambda>a. \<lparr>fshape = [nd], frames = map (feature (r_natm a) nd sh sc) (frames (r_data_dm a))\<rparr>) rds)"
    and "np_concatenate0 (map (\<lambda>a. \<lparr>fshape = [nd], frames = map (feature (r_natm a) nd sh sc) (frames (r_data_dm a))\<rparr>) rds)
           = Inr \<lparr>fshape = [nd],
                  frames = concat (map (\<lambda>a. map (feature (r_natm a) nd sh sc) (frames (r_data_dm a))) rds)\<rparr>"
proof -
  show "emap (\<lambda>r. normalized_sum (r_data_dm r) sh sc) rds =
           Inr (map (\<lambda>a. \<lparr>fshape = [nd], frames = map (feature (r_natm a) nd sh sc) (frames (r_data_dm a))\<rparr>) rds)"
    using wf normalized_sum_feature [OF _ _ sh sc] by (intro emap_Inr) blast
  have "np_concatenate0 (map (\<lambda>a. \<lparr>fshape = [nd], frames = map (feature (r_natm a) nd sh sc) (frames (r_data_dm a))\<rparr>) rds)
           = Inr \<lparr>fshape = [nd],
                  frames = concat (map frames (map (\<lambda>a. \<lparr>fshape = [nd], frames = map (feature (r_natm a) nd sh sc) (frames (r_data_dm a))\<rparr>) rds))\<rparr>"
    using ne by (intro np_concatenate0_same) auto
  then show "np_concatenate0 (map (\<lambda>a. \<lparr>fshape = [nd], frames = map (feature (r_natm a) nd sh sc) (frames (r_data_dm a))\<rparr>) rds)
           = Inr \<lparr>fshape = [nd],
                  frames = concat (map (\<lambda>a. map (feature (r_natm a) nd sh sc) (frames (r_data_dm a))) rds)\<rparr>"
    by (simp add: comp_def)
qed

lemma feature_length [simp]: "length (feature na nd sh sc f) = nd"
  by (simp add: feature_def)

lemma section_sums_split:
  assumes "secs \<noteq> []" "length row = sum_list secs"
  shows "map sum_list (split_at 0 (butlast (np_cumsum secs)) row) = section_sums secs row"
  using split_sections [OF assms(1), of row 0] assms(2)
  by (simp add: np_cumsum_def section_sums_def sec_offset_def comp_def)

lemma map2_concat_replicate:
  "map2 f (concat (map A xs)) (concat (map (\<lambda>a. replicate (length (A a)) (c a)) xs))
     = concat (map (\<lambda>a. map (\<lambda>row. f row (c a)) (A a)) xs)"
proof (induction xs)
  case Nil
  then show ?case by simp
next
  case (Cons x xs)
  have "map2 f (A x) (replicate (length (A x)) (c x)) = map (\<lambda>row. f row (c x)) (A x)"
    by (induction "A x") (simp_all add: map_replicate_const zip_replicate2)
  with Cons show ?case by simp
qed

lemma ridge_matrix:
  "map2 (map2 (\<lambda>a i. a + \<alpha> * i)) (XT_X p X) (ridge_I p) = ridge_lhs p X \<alpha>"
proof (rule nth_equalityI)
  show "length (map2 (map2 (\<lambda>a i. a + \<alpha> * i)) (XT_X p X) (ridge_I p)) = length (ridge_lhs p X \<alpha>)"
    by (simp add: XT_X_def ridge_I_def ridge_lhs_def)
next
  fix i assume "i < length (map2 (map2 (\<lambda>a i. a + \<alpha> * i)) (XT_X p X) (ridge_I p))"
  then have i: "i < p" by (simp add: XT_X_def ridge_I_def)
  have "map2 (\<lambda>a i. a + \<alpha> * i) (XT_X p X ! i) (ridge_I p ! i) = ridge_lhs p X \<alpha> ! i"
  proof (rule nth_equalityI)
    show "length (map2 (\<lambda>a i. a + \<alpha> * i) (XT_X p X ! i) (ridge_I p ! i)) = length (ridge_lhs p X \<alpha> ! i)"
      using i by (simp add: XT_X_def ridge_I_def ridge_lhs_def)
  next
    fix j assume "j < length (map2 (\<lambda>a i. a + \<alpha> * i) (XT_X p X ! i) (ridge_I p ! i))"
    then have j: "j < p" using i by (simp add: XT_X_def ridge_I_def)
    show "map2 (\<lambda>a i. a + \<alpha> * i) (XT_X p X ! i) (ridge_I p ! i) ! j = ridge_lhs p X \<alpha> ! i ! j"
      using i j by (auto simp: XT_X_def ridge_I_def ridge_lhs_def)
  qed
  then show "map2 (map2 (\<lambda>a i. a + \<alpha> * i)) (XT_X p X) (ridge_I p) ! i = ridge_lhs p X \<alpha> ! i"
    using i by (simp add: XT_X_def ridge_I_def)
qed

lemma ridge_vector:
  assumes "length X = length Y"
  shows "XT_y p X Y = Inr (ridge_rhs p X (map hd Y))"
proof -
  have "map2 (\<lambda>row yr. row ! i * hd yr) X Y = map (\<lambda>(row, e). row ! i * e) (zip X (map hd Y))" for i
    by (simp add: zip_map2 case_prod_beta)
  then show ?thesis using assms by (simp add: XT_y_def ridge_rhs_def)
qed

lemma all_labels:
  assumes ne: "rds \<noteq> []" and wf: "\<forall>a\<in>set rds. data_wf a"
  shows "np_concatenate0 (map r_data_ec rds) =
           Inr \<lparr>fshape = [1], frames = concat (map (\<lambda>a. frames (r_data_ec a)) rds)\<rparr>"
proof -
  have "\<forall>x\<in>set (map r_data_ec rds). fshape x = [1]"
    using wf unfolding data_wf_def by auto
  from np_concatenate0_same [OF _ this] ne show ?thesis by (simp add: comp_def)
qed

lemma design_matrix_length:
  assumes wf: "\<forall>a\<in>set rds. data_wf a"
  shows "length (design_matrix rds sh sc symm) = length (concat (map (\<lambda>a. frames (r_data_ec a)) rds))"
proof -
  have "map (\<lambda>a. length (frames (r_data_dm a))) rds = map (\<lambda>a. length (frames (r_data_ec a))) rds"
    using wf by (auto simp: data_wf_def)
  from arg_cong [OF this, of sum_list] show ?thesis
    by (simp add: design_matrix_def length_concat comp_def)
qed

lemma append_natm:
  "map2 (\<lambda>row x. row @ [x]) (concat (map (\<lambda>a. map (F a) (frames (r_data_dm a))) rds))
      (concat (map (\<lambda>a. replicate (length (frames (r_data_dm a))) (c a)) rds))
     = concat (map (\<lambda>a. map (\<lambda>f. F a f @ [c a]) (frames (r_data_dm a))) rds)"
  using map2_concat_replicate [where A = "\<lambda>a. map (F a) (frames (r_data_dm a))"
      and f = "\<lambda>row x. row @ [x]" and c = c and xs = rds]
  by (simp add: comp_def)

lemma natm_length:
  "length (concat (map (\<lambda>a. replicate (length (frames (r_data_dm a))) (c a)) rds))
     = length (concat (map (\<lambda>a. map (F a) (frames (r_data_dm a))) rds))"
  by (simp add: length_concat comp_def)

lemma prefitting_design:
  assumes ne: "readers g \<noteq> []" and wf: "\<forall>a\<in>set (readers g). data_wf a \<and> r_ndesc a = nd"
      and sh: "length sh = nd" and sc: "length sc = nd"
      and secs: "case symm of None \<Rightarrow> True | Some secs \<Rightarrow> secs \<noteq> [] \<and> sum_list secs = nd"
  shows "compute_prefitting solve g (Some sh) (Some sc) \<alpha> symm =
     ebind (solve (ridge_lhs (Suc (case symm of None \<Rightarrow> nd | Some secs \<Rightarrow> length secs))
                     (design_matrix (readers g) sh sc symm) \<alpha>)
                  (ridge_rhs (Suc (case symm of None \<Rightarrow> nd | Some secs \<Rightarrow> length secs))
                     (design_matrix (readers g) sh sc symm) (labels (readers g))))
       (\<lambda>coef. if coef = [] then Inl IndexError
               else case symm of
                      None \<Rightarrow> Inr (butlast coef, last coef)
                    | Some secs \<Rightarrow>
                        if butlast coef = [] then Inl ValueError
                        else Inr (concat (map (\<lambda>(w, s). replicate s w) (zip (butlast coef) secs)),
                                  last coef))"
proof -
  define rds where "rds = readers g"
  define F where "F = (\<lambda>a. feature (r_natm a) nd sh sc)"
  define sdms where "sdms = map (\<lambda>a. \<lparr>fshape = [nd], frames = map (F a) (frames (r_data_dm a))\<rparr>) rds"
  define rows where "rows = concat (map (\<lambda>a. map (F a) (frames (r_data_dm a))) rds)"
  define natms where "natms = concat (map (\<lambda>r. replicate (length (frames (r_data_dm r)))
                                       (real (hd (fshape (r_data_dm r))))) rds)"
  define X where "X = design_matrix rds sh sc symm"
  define Y where "Y = concat (map (\<lambda>a. frames (r_data_ec a)) rds)"
  define p where "p = Suc (case symm of None \<Rightarrow> nd | Some secs \<Rightarrow> length secs)"
  have wf': "\<forall>a\<in>set rds. data_wf a \<and> r_ndesc a = nd" and wf1: "\<forall>a\<in>set rds. data_wf a"
    and ne': "rds \<noteq> []"
    using wf ne by (simp_all add: rds_def)
  have nd: "r_ndesc a = nd" if "a \<in> set rds" for a using wf' that by blast
  have hdn: "hd (fshape (r_data_dm a)) = r_natm a" if "a \<in> set rds" for a
    using wf1 that by (auto simp: data_wf_def)
  have e1: "emap (\<lambda>r. normalized_sum (r_data_dm r) sh sc) rds = Inr sdms"
    using all_sdm_features(1) [OF ne' wf' sh sc] by (simp add: sdms_def F_def)
  have e2: "np_concatenate0 sdms = Inr \<lparr>fshape = [nd], frames = rows\<rparr>"
    using all_sdm_features(2) [OF ne' wf' sh sc] by (simp add: sdms_def F_def rows_def)
  have nat_eq: "natms = concat (map (\<lambda>a. replicate (length (frames (r_data_dm a))) (real (r_natm a))) rds)"
    unfolding natms_def using hdn by (intro arg_cong [where f = concat] map_cong refl) simp
  have e5: "np_concatenate0 (map r_data_ec rds) = Inr \<lparr>fshape = [1], frames = Y\<rparr>"
    using all_labels [OF ne' wf1] by (simp add: Y_def)
  have lXY: "length X = length Y"
    unfolding X_def Y_def by (rule design_matrix_length [OF wf1])
  have e6: "XT_y p X Y = Inr (ridge_rhs p X (labels rds))"
    using ridge_vector [OF lXY, of p] by (simp add: labels_def map_concat comp_def Y_def)
  note e7 = ridge_matrix [of \<alpha> p X]
  show ?thesis
  proof (cases symm)
    case None
    have Xe: "X = concat (map (\<lambda>a. map (\<lambda>f. F a f @ [real (r_natm a)]) (frames (r_data_dm a))) rds)"
      unfolding X_def design_matrix_def None F_def using nd
      by (intro arg_cong [where f = concat] map_cong refl) simp
    have e4: "np_append_column \<lparr>fshape = [nd], frames = rows\<rparr> natms = Inr \<lparr>fshape = [p], frames = X\<rparr>"
      unfolding nat_eq rows_def Xe
      by (simp add: np_append_column_def natm_length append_natm p_def None)
    show ?thesis
      unfolding compute_prefitting_def rds_def [symmetric] natms_def [symmetric]
      using e1 e2 e4 e5 e6 e7
      by (simp add: ebind_def Let_def None X_def [symmetric] p_def [symmetric] split: list.splits)
         (simp add: X_def p_def None rds_def Let_def split: sum.splits list.splits)
  next
    case (Some secs)
    with secs have s1: "secs \<noteq> []" and s2: "sum_list secs = nd" by simp_all
    have len: "Suc (length (butlast (np_cumsum secs))) = length secs"
      using s1 by (simp add: np_cumsum_def)
    have Xe: "X = concat (map (\<lambda>a. map (\<lambda>f. (section_sums secs \<circ> F a) f @ [real (r_natm a)])
                (frames (r_data_dm a))) rds)"
      unfolding X_def design_matrix_def Some F_def using nd
      by (intro arg_cong [where f = concat] map_cong refl) simp
    have rows': "map (\<lambda>row. map sum_list (split_at 0 (butlast (np_cumsum secs)) row)) rows
                   = concat (map (\<lambda>a. map (section_sums secs \<circ> F a) (frames (r_data_dm a))) rds)"
      unfolding rows_def map_concat map_map
      by (intro arg_cong [where f = concat] map_cong refl)
         (simp add: comp_def section_sums_split [OF s1] F_def s2)
    have e4: "np_append_column
                \<lparr>fshape = [Suc (length (butlast (np_cumsum secs)))],
                  frames = map (\<lambda>row. map sum_list (split_at 0 (butlast (np_cumsum secs)) row)) rows\<rparr> natms
              = Inr \<lparr>fshape = [p], frames = X\<rparr>"
      unfolding nat_eq rows' Xe
      by (simp add: np_append_column_def natm_length append_natm p_def Some len del: length_butlast)
    show ?thesis
      unfolding compute_prefitting_def rds_def [symmetric] natms_def [symmetric]
      using e1 e2 e4 e5 e6 e7 s1 s2
      by (simp add: ebind_def Let_def Some X_def [symmetric] p_def [symmetric] np_concatenate1_def
            split: list.splits del: length_butlast)
         (simp add: X_def p_def Some rds_def Let_def ebind_def np_concatenate1_def
            split: sum.splits list.splits del: length_butlast)
  qed
qed

lemma design_matrix_rows:
  assumes wf: "\<forall>a\<in>set rds. r_ndesc a = nd" and row: "row \<in> set (design_matrix rds sh sc symm)"
  shows "length row = Suc (case symm of None \<Rightarrow> nd | Some secs \<Rightarrow> length secs)"
  using assms by (auto simp: design_matrix_def section_sums_def split: option.splits)

lemma prefitting_defaults:
  assumes "shift = None \<or> scale = None"
  shows "compute_prefitting solve g shift scale \<alpha> symm =
           ebind (compute_data_stat g symm) (\<lambda>(all_mean, all_std).
             compute_prefitting solve g
               (Some (case shift of None \<Rightarrow> all_mean | Some v \<Rightarrow> v))
               (Some (case scale of None \<Rightarrow> all_std | Some v \<Rightarrow> v)) \<alpha> symm)"
proof (cases "compute_data_stat g symm")
  case (Inl e)
  with assms show ?thesis
    by (cases shift; cases scale) (simp_all add: compute_prefitting_def ebind_def)
next
  case (Inr ms)
  obtain m s where ms: "ms = (m, s)" by (cases ms)
  from assms Inr show ?thesis
    by (cases shift; cases scale) (simp_all add: compute_prefitting_def [of solve g] ebind_def ms)
qed

lemma expand_weight:
  assumes "length w = length secs"
  shows "length (concat (map (\<lambda>(x, s). replicate s x) (zip w secs))) = sum_list secs"
    and "i < length secs \<Longrightarrow> k < secs ! i \<Longrightarrow>
           concat (map (\<lambda>(x, s). replicate s x) (zip w secs)) ! (sec_offset secs i + k) = w ! i"
  using expand_length [OF assms, of "\<lambda>x. x"] expand_nth [OF assms, of i k "\<lambda>x. x"]
  by (simp_all add: sec_offset_def)

text \<open>
  C3 (ridge-regression prefitting). Let the group reader have readers whose data are
  shaped as \<open>prepare\<close> shapes them and that share one channel width \<open>nd\<close>, let \<open>shift\<close>
  and \<open>scale\<close> be given as vectors of that width, no entry of \<open>scale\<close> being zero (numpy
  would divide to an infinity or nan there), and let the sections, if any, add up to
  \<open>nd\<close>. Then \<open>compute_prefitting\<close> hands to the solver the matrix \<open>X\<^sup>T X + \<alpha> I'\<close> and the
  vector \<open>X\<^sup>T y\<close>, where \<open>X\<close> is the design matrix (one row for every frame: the feature of
  the frame, summed over each section when there are sections, and last the atom count of
  its system), \<open>y\<close> holds the labels and \<open>I'\<close> is the identity with its last diagonal entry
  zero. An exception of the solver passes to the caller. Of a solution the last entry is
  the bias and the entries before it are the weight; with sections every one of them is
  repeated over the width of its section, which gives a weight of length \<open>nd\<close>. When
  \<open>shift\<close> or \<open>scale\<close> is not given, the mean or the standard deviation of
  \<open>compute_data_stat\<close> takes its place. The numbers are real numbers here, and the solver
  is an argument: \<open>np.linalg.solve\<close> is no code of this program.
\<close>

theorem compute_prefitting_ridge:
  fixes g :: group_reader and sh sc :: "real list" and symm :: "nat list option"
  assumes ne: "readers g \<noteq> []"
      and wf: "\<forall>a\<in>set (readers g). data_wf a \<and> r_ndesc a = nd"
      and sh: "length sh = nd" and sc: "length sc = nd" and nz: "\<forall>x\<in>set sc. x \<noteq> 0"
      and secs: "case symm of None \<Rightarrow> True | Some secs \<Rightarrow> secs \<noteq> [] \<and> sum_list secs = nd"
  defines "p \<equiv> Suc (case symm of None \<Rightarrow> nd | Some secs \<Rightarrow> length secs)"
      and "X \<equiv> design_matrix (readers g) sh sc symm"
  shows "compute_prefitting solve g (Some sh) (Some sc) \<alpha> symm =
           ebind (solve (ridge_lhs p X \<alpha>) (ridge_rhs p X (labels (readers g))))
             (\<lambda>coef. if coef = [] then Inl IndexError
                     else case symm of
                            None \<Rightarrow> Inr (butlast coef, last coef)
                          | Some secs \<Rightarrow>
                              if butlast coef = [] then Inl ValueError
                              else Inr (concat (map (\<lambda>(w, s). replicate s w) (zip (butlast coef) secs)),
                                        last coef)) \<and>
         (\<forall>row\<in>set X. length row = p) \<and> length X = length (labels (readers g)) \<and>
         (\<forall>coef secs. symm = Some secs \<and> length coef = p \<longrightarrow>
            length (concat (map (\<lambda>(w, s). replicate s w) (zip (butlast coef) secs))) = nd \<and>
            (\<forall>i<length secs. \<forall>k<secs ! i.
               concat (map (\<lambda>(w, s). replicate s w) (zip (butlast coef) secs)) ! (sec_offset secs i + k)
                 = coef ! i)) \<and>
         (shift = None \<or> scale = None \<longrightarrow>
            compute_prefitting solve g shift scale \<alpha> symm =
              ebind (compute_data_stat g symm) (\<lambda>(all_mean, all_std).
                compute_prefitting solve g
                  (Some (case shift of None \<Rightarrow> all_mean | Some v \<Rightarrow> v))
                  (Some (case scale of None \<Rightarrow> all_std | Some v \<Rightarrow> v)) \<alpha> symm))"
proof -
  have wf1: "\<forall>a\<in>set (readers g). data_wf a" and wf2: "\<forall>a\<in>set (readers g). r_ndesc a = nd"
    using wf by blast+
  have 1: "compute_prefitting solve g (Some sh) (Some sc) \<alpha> symm =
           ebind (solve (ridge_lhs p X \<alpha>) (ridge_rhs p X (labels (readers g))))
             (\<lambda>coef. if coef = [] then Inl IndexError
                     else case symm of
                            None \<Rightarrow> Inr (butlast coef, last coef)
                          | Some secs \<Rightarrow>
                              if butlast coef = [] then Inl ValueError
                              else Inr (concat (map (\<lambda>(w, s). replicate s w) (zip (butlast coef) secs)),
                                        last coef))"
    unfolding p_def X_def by (rule prefitting_design [OF ne wf sh sc secs])
  have 2: "\<forall>row\<in>set X. length row = p"
    unfolding p_def X_def using design_matrix_rows [OF wf2] by blast
  have 3: "length X = length (labels (readers g))"
    unfolding X_def design_matrix_length [OF wf1] by (simp add: labels_def length_concat comp_def)
  have 4: "length (concat (map (\<lambda>(w, s). replicate s w) (zip (butlast coef) ss))) = nd \<and>
            (\<forall>i<length ss. \<forall>k<ss ! i.
               concat (map (\<lambda>(w, s). replicate s w) (zip (butlast coef) ss)) ! (sec_offset ss i + k)
                 = coef ! i)"
    if s: "symm = Some ss" and l: "length coef = p" for coef ss
  proof -
    from s l have lb: "length (butlast coef) = length ss" by (simp add: p_def)
    from s secs have sm: "sum_list ss = nd" by simp
    have "butlast coef ! i = coef ! i" if "i < length ss" for i
      using that lb by (simp add: nth_butlast)
    with expand_weight [OF lb] sm show ?thesis by simp
  qed
  have 5: "compute_prefitting solve g shift scale \<alpha> symm =
              ebind (compute_data_stat g symm) (\<lambda>(all_mean, all_std).
                compute_prefitting solve g
                  (Some (case shift of None \<Rightarrow> all_mean | Some v \<Rightarrow> v))
                  (Some (case scale of None \<Rightarrow> all_std | Some v \<Rightarrow> v)) \<alpha> symm)"
    if "shift = None \<or> scale = None"
    using prefitting_defaults [OF that] .
  from 1 2 3 4 5 show ?thesis by blast
qed

text \<open>
  The example: one system of one atom and five channels with two frames, the sections
  \<open>[2, 3]\<close>, no shift, scale one and \<open>\<alpha> = 25\<close>. The solver of the example returns
  \<open>[4 / 75, 2 / 25, 151 / 75]\<close> if that solves the system it is given, which it does.
\<close>

theorem compute_prefitting_ridge_witness:
  "compute_prefitting
     (\<lambda>A b. if mat_vec A [4 / 75, 2 / 25, 151 / 75] = b then Inr [4 / 75, 2 / 25, 151 / 75]
             else Inl LinAlgError)
     greader_e (Some [0, 0, 0, 0, 0]) (Some [1, 1, 1, 1, 1]) 25 (Some [2, 3])
     = Inr ([4 / 75, 4 / 75, 2 / 25, 2 / 25, 2 / 25], 151 / 75) \<and>
   design_matrix (readers greader_e) [0, 0, 0, 0, 0] [1, 1, 1, 1, 1] (Some [2, 3]) = [[3, 12, 1], [13, 27, 1]] \<and>
   ridge_lhs 3 [[3, 12, 1], [13, 27, 1]] 25 = [[203, 387, 16], [387, 898, 39], [16, 39, 2]] \<and>
   ridge_rhs 3 [[3, 12, 1], [13, 27, 1]] (labels (readers greader_e)) = [74, 171, 8]"
proof -
  let ?solve = "\<lambda>A b. if mat_vec A [4 / 75, 2 / 25, 151 / 75] = b then Inr [4 / 75, 2 / 25, 151 / 75]
             else Inl LinAlgError"
  have ne: "readers greader_e \<noteq> []" by (simp add: greader_e_def)
  have wf: "\<forall>a\<in>set (readers greader_e). data_wf a \<and> r_ndesc a = 5"
    by (simp add: greader_e_def data_wf_def r_data_dm_def r_data_ec_def r_natm_def r_ndesc_def reader_e_def)
  have sh: "length [0, 0, 0, 0, 0::real] = 5" and sc: "length [1, 1, 1, 1, 1::real] = 5" by simp_all
  have nz: "\<forall>x\<in>set [1, 1, 1, 1, 1::real]. x \<noteq> 0" by simp
  have secs: "case Some [2, 3::nat] of None \<Rightarrow> True | Some secs \<Rightarrow> secs \<noteq> [] \<and> sum_list secs = 5"
    by simp
  have f: "feature (Suc 0) 5 [0, 0, 0, 0, 0] [1, 1, 1, 1, 1] [1, 2, 3, 4, 5] = [1, 2, 3, 4, 5]"
    "feature (Suc 0) 5 [0, 0, 0, 0, 0] [1, 1, 1, 1, 1] [6, 7, 8, 9, 10] = [6, 7, 8, 9, 10]"
    by (simp_all add: feature_def upt_rec)
  have s: "section_sums [2, 3] [1, 2, 3, 4, 5] = [3, 12]" "section_sums [2, 3] [6, 7, 8, 9, 10] = [13, 27]"
    by (simp_all add: section_sums_def sec_offset_def upt_rec)
  have X: "design_matrix (readers greader_e) [0, 0, 0, 0, 0] [1, 1, 1, 1, 1] (Some [2, 3]) = [[3, 12, 1], [13, 27, 1]]"
    by (simp add: design_matrix_def greader_e_def r_data_dm_def r_natm_def r_ndesc_def reader_e_def f s)
  have A: "ridge_lhs 3 [[3, 12, 1], [13, 27, 1]] 25 = [[203, 387, 16], [387, 898, 39], [16, 39, 2]]"
    by (simp add: ridge_lhs_def upt_rec)
  have b: "ridge_rhs 3 [[3, 12, 1], [13, 27, 1]] (labels (readers greader_e)) = [74, 171, 8]"
    by (simp add: ridge_rhs_def labels_def greader_e_def r_data_ec_def reader_e_def upt_rec)
  have m: "mat_vec [[203, 387, 16], [387, 898, 39], [16, 39, 2]] [4 / 75, 2 / 25, 151 / 75] = [74, 171, 8]"
    by (simp add: mat_vec_def)
  from compute_prefitting_ridge [OF ne wf sh sc nz secs, of ?solve 25, THEN conjunct1]
  have "compute_prefitting ?solve greader_e (Some [0, 0, 0, 0, 0]) (Some [1, 1, 1, 1, 1]) 25 (Some [2, 3])
     = Inr ([4 / 75, 4 / 75, 2 / 25, 2 / 25, 2 / 25], 151 / 75)"
    unfolding X using A b by (simp add: m ebind_def numeral_2_eq_2 numeral_3_eq_3)
  with X A b show ?thesis by blast
qed

end
